theory Spec2Isabelle
  imports Complex_Main
begin

section \<open>Tensors\<close>

text \<open>
  The optimizer of \<^verbatim>\<open>deepspeed/runtime/fp16/onebit/onebitlamb.py\<close> (class OnebitLamb).
  A tensor is modelled by the list of its elements in storage order; its shape plays no
  role beyond the element count. Element arithmetic is exact (type \<open>real\<close>): rounding,
  infinities and NaN of the floating-point types are outside this model. Elementwise
  operations of two tensors pair the elements positionally (\<open>map2\<close>); the code only
  ever combines tensors of one shape (a parameter, its gradient and its state tensors).
\<close>

type_synonym tensor = "real list"

definition zeros :: "nat \<Rightarrow> tensor" where
  "zeros n = replicate n 0"

definition numel :: "tensor \<Rightarrow> nat" where
  "numel t = length t"

text \<open>\<^verbatim>\<open>torch.norm(t)\<close>, and \<^verbatim>\<open>t.pow(2).sum().sqrt()\<close>.\<close>

definition norm2 :: "tensor \<Rightarrow> real" where
  "norm2 t = sqrt (sum_list (map (\<lambda>x. x * x) t))"

text \<open>\<^verbatim>\<open>t.max()\<close> of a non-empty tensor.\<close>

definition tmax :: "tensor \<Rightarrow> real" where
  "tmax t = fold max (tl t) (hd t)"

text \<open>A gradient is dense or sparse (\<^verbatim>\<open>grad.is_sparse\<close>).\<close>

datatype gradient = Dense tensor | Sparse tensor

text \<open>
  A momentum tensor either owns its storage, or is a view \<open>View off n\<close> of \<open>n\<close> elements
  at offset \<open>off\<close> of the fused buffer \<^verbatim>\<open>self.exp_avg_flat[0]\<close> (after
  \<^verbatim>\<open>p.data = q.data\<close> in the fusion step).
\<close>

datatype tref = Own tensor | View nat nat

section \<open>Optimizer state\<close>

text \<open>\<^verbatim>\<open>self.state[p]\<close> once initialised: the six keys set at "State initialization".\<close>

record pstate =
  step_count :: int
  lamb_coeff_freeze :: real
  last_factor :: real
  exp_avg :: tref
  exp_avg_sq :: tensor
  exp_avg_sq_back :: tensor

text \<open>
  A state dict holds all six keys, or only the two smoothing keys (what
  \<^verbatim>\<open>load_state_dict\<close> leaves for a parameter the checkpoint had no state for:
  \<open>Smoothing_only lamb_coeff_freeze last_factor\<close>). An absent entry and an empty dict are
  not told apart: the code distinguishes neither (\<^verbatim>\<open>len(state) == 0\<close>, key lookups).
\<close>

datatype pentry = Full pstate | Smoothing_only real real

text \<open>A parameter group: the parameters (by identity) and the hyperparameters.\<close>

record group =
  params :: "nat list"
  lr :: real
  bias_correction :: bool
  betas :: "real \<times> real"
  eps :: real
  weight_decay :: real
  max_grad_norm :: real
  max_coeff :: real
  min_coeff :: real
  exp_avg_mask :: "tensor option"

text \<open>
  The optimizer object together with the objects it refers to: the parameters
  (\<open>p_data\<close>, \<open>p_grad\<close>: \<^verbatim>\<open>p.data\<close> and \<^verbatim>\<open>p.grad\<close> of each parameter) and the flag
  \<^verbatim>\<open>self.deepspeed.enable_backward_allreduce\<close> of the training engine.
  \<open>world_size\<close> is \<^verbatim>\<open>self.size\<close>.
\<close>

record optimizer =
  param_groups :: "group list"
  p_data :: "nat \<Rightarrow> tensor"
  p_grad :: "nat \<Rightarrow> gradient option"
  state :: "nat \<rightharpoonup> pentry"
  lamb_freeze_key :: bool
  initialize :: bool
  freeze_step :: int
  coeff_beta :: real
  factor_max :: real
  factor_min :: real
  factor_threshold :: real
  world_size :: nat
  divider :: nat
  exp_avg_flat :: "tensor list"
  dummy_exp_avg :: "nat \<rightharpoonup> tref"
  corrected_tensor_sizes :: "nat list"
  server_chunk_sizes :: "nat list"
  worker_errors :: "tensor list"
  server_errors :: "tensor list"
  scaling_coeffs :: "real list list"
  lamb_coeffs :: "real list"
  enable_backward_allreduce :: bool

text \<open>The exceptions a call can raise; a raise leaves the object as mutated so far.\<close>

datatype error =
    SparseGradient
  | KeyError
  | IndexError
  | ZeroDivisionError
  | UnboundLocalError
  | EmptyTensor
  | ValueError

type_synonym 'a result = "(error \<times> optimizer) + 'a"

text \<open>\<^verbatim>\<open>self.divider = int(self.size * 8 / np.gcd(self.size, 8))\<close>\<close>

definition compute_divider :: "nat \<Rightarrow> nat" where
  "compute_divider sz = (sz * 8) div (gcd sz 8)"

text \<open>The fields \<^verbatim>\<open>__init__\<close> sets, for given groups, parameters and configuration.\<close>

definition init_optimizer ::
  "group list \<Rightarrow> (nat \<Rightarrow> tensor) \<Rightarrow> int \<Rightarrow> real \<Rightarrow> real \<Rightarrow> real \<Rightarrow> real \<Rightarrow> nat \<Rightarrow> optimizer" where
  "init_optimizer groups data fs cb fmax fmin fthr sz =
     \<lparr> param_groups = groups, p_data = data, p_grad = (\<lambda>_. None), state = Map.empty,
       lamb_freeze_key = False, initialize = False, freeze_step = fs, coeff_beta = cb,
       factor_max = fmax, factor_min = fmin, factor_threshold = fthr,
       world_size = sz, divider = compute_divider sz,
       exp_avg_flat = [], dummy_exp_avg = Map.empty, corrected_tensor_sizes = [],
       server_chunk_sizes = [], worker_errors = [], server_errors = [],
       scaling_coeffs = [], lamb_coeffs = [], enable_backward_allreduce = True \<rparr>"

section \<open>Reading and writing momentum\<close>

definition flat0 :: "tensor list \<Rightarrow> tensor" where
  "flat0 fl = (case fl of [] \<Rightarrow> [] | f # _ \<Rightarrow> f)"

definition deref :: "tensor list \<Rightarrow> tref \<Rightarrow> tensor" where
  "deref fl r = (case r of Own t \<Rightarrow> t | View off n \<Rightarrow> take n (drop off (flat0 fl)))"

definition store :: "tensor \<Rightarrow> nat \<Rightarrow> tensor \<Rightarrow> tensor" where
  "store f off v = take off f @ v @ drop (off + length v) f"

text \<open>An in-place write of \<open>v\<close> through the reference \<open>r\<close>: the new reference and buffers.\<close>

definition write_ref :: "tref \<Rightarrow> tensor \<Rightarrow> tref" where
  "write_ref r v = (case r of Own _ \<Rightarrow> Own v | View off n \<Rightarrow> View off n)"

definition write_flat :: "tref \<Rightarrow> tensor \<Rightarrow> tensor list \<Rightarrow> tensor list" where
  "write_flat r v fl =
     (case r of Own _ \<Rightarrow> fl
      | View off n \<Rightarrow> (case fl of [] \<Rightarrow> [] | f # fs \<Rightarrow> store f off v # fs))"

text \<open>\<^verbatim>\<open>self.state[p]['exp_avg']\<close>: the values, or a KeyError (\<open>None\<close>).\<close>

definition momentum :: "optimizer \<Rightarrow> nat \<Rightarrow> tensor option" where
  "momentum opt p =
     (case state opt p of
        Some (Full s) \<Rightarrow> Some (deref (exp_avg_flat opt) (exp_avg s))
      | _ \<Rightarrow> None)"

definition all_params :: "optimizer \<Rightarrow> nat list" where
  "all_params opt = concat (map params (param_groups opt))"

definition nth_opt :: "'a list \<Rightarrow> nat \<Rightarrow> 'a option" where
  "nth_opt xs i = (if i < length xs then Some (xs ! i) else None)"

definition nth2 :: "'a list list \<Rightarrow> nat \<Rightarrow> nat \<Rightarrow> 'a option" where
  "nth2 xss i j = (case nth_opt xss i of None \<Rightarrow> None | Some xs \<Rightarrow> nth_opt xs j)"

section \<open>The step\<close>

text \<open>
  The \<^verbatim>\<open>grads\<close> argument of \<^verbatim>\<open>step\<close>: \<^verbatim>\<open>None\<close>, a generator or a list of
  gradients (one group), or a list of lists (one per group). The closure only produces
  the returned loss and is left out.
\<close>

datatype grads_arg =
    NoGrads
  | Generator "gradient option list"
  | Flat "gradient option list"
  | Grouped "gradient option list list"

definition grads_group_of :: "optimizer \<Rightarrow> grads_arg \<Rightarrow> error + gradient option list option list" where
  "grads_group_of opt grads =
     (case grads of
        NoGrads \<Rightarrow> Inr (replicate (length (param_groups opt)) None)
      | Generator gs \<Rightarrow> Inr [Some gs]
      | Flat gs \<Rightarrow> (if gs = [] then Inl IndexError else Inr [Some gs])
      | Grouped gss \<Rightarrow> (if gss = [] then Inl IndexError else Inr (map Some gss)))"

subsection \<open>Before the parameter loop: snapshot and scaling coefficients (lines 158-179)\<close>

definition exp_avg_snapshot :: "optimizer \<Rightarrow> tensor list list option" where
  "exp_avg_snapshot opt =
     those (map (\<lambda>g. those (map (momentum opt) (params g))) (param_groups opt))"

definition magnitude :: "tensor \<Rightarrow> real" where
  "magnitude t = norm2 t / sqrt (real (numel t))"

fun append_scaling :: "real \<Rightarrow> real list list \<Rightarrow> optimizer \<Rightarrow> optimizer result" where
  "append_scaling united_scale [] opt = Inr opt"
| "append_scaling united_scale (row # rows) opt =
     (if 0 \<in> set row then Inl (ZeroDivisionError, opt)
      else append_scaling united_scale rows
             (opt\<lparr>scaling_coeffs := scaling_coeffs opt @ [map (\<lambda>m. united_scale / m) row]\<rparr>))"

definition united_scale_of :: "real list list \<Rightarrow> real" where
  "united_scale_of momentum_scales =
     sum_list (map sum_list momentum_scales) / real (sum_list (map length momentum_scales))"

definition compute_scaling_coeffs :: "optimizer \<Rightarrow> optimizer result" where
  "compute_scaling_coeffs opt =
     (case exp_avg_snapshot opt of
        None \<Rightarrow> Inl (KeyError, opt)
      | Some ms \<Rightarrow>
          (let momentum_scales = map (map magnitude) ms in
           if sum_list (map length momentum_scales) = 0 then Inl (ZeroDivisionError, opt)
           else append_scaling (united_scale_of momentum_scales) momentum_scales opt))"

definition pre_compression :: "optimizer \<Rightarrow> (optimizer \<times> tensor list list option) result" where
  "pre_compression opt =
     (if lamb_freeze_key opt then
        (case exp_avg_snapshot opt of
           None \<Rightarrow> Inl (KeyError, opt)
         | Some exp_avg_last_step \<Rightarrow>
             (if scaling_coeffs opt = [] then
                (case compute_scaling_coeffs opt of
                   Inl e \<Rightarrow> Inl e
                 | Inr opt' \<Rightarrow> Inr (opt', Some exp_avg_last_step))
              else Inr (opt, Some exp_avg_last_step)))
      else Inr (opt, None))"

subsection \<open>The parameter loop (lines 181-250)\<close>

definition clamp_coeff :: "group \<Rightarrow> real \<Rightarrow> real" where
  "clamp_coeff grp c =
     (let c1 = (if c > max_coeff grp then max_coeff grp else c)
      in if c1 < min_coeff grp then min_coeff grp else c1)"

text \<open>Warmup stage, baseline Lamb; \<open>s\<close> holds the incremented step count.\<close>

definition warmup_param :: "group \<Rightarrow> nat \<Rightarrow> pstate \<Rightarrow> tensor \<Rightarrow> optimizer \<Rightarrow> optimizer" where
  "warmup_param grp p s grad opt =
     (let beta1 = fst (betas grp); beta2 = snd (betas grp);
          m = map2 (\<lambda>m g. beta1 * m + (1 - beta1) * g) (deref (exp_avg_flat opt) (exp_avg s)) grad;
          v = map2 (\<lambda>v g. beta2 * v + (1 - beta2) * g * g) (exp_avg_sq s) grad;
          back = (if step_count s = freeze_step opt then v else exp_avg_sq_back s);
          s1 = s\<lparr>exp_avg := write_ref (exp_avg s) m, exp_avg_sq := v, exp_avg_sq_back := back\<rparr>;
          opt1 = opt\<lparr>exp_avg_flat := write_flat (exp_avg s) m (exp_avg_flat opt)\<rparr>
      in if initialize opt then
           (let weight_norm = norm2 (p_data opt p);
                update0 = map2 (\<lambda>m v. m / (sqrt v + eps grp)) m v;
                update = (if weight_decay grp > 0
                          then map2 (\<lambda>u w. u + weight_decay grp * w) update0 (p_data opt p)
                          else update0);
                update_norm = norm2 update;
                lamb_coeff = (if weight_norm \<noteq> 0 \<and> update_norm \<noteq> 0
                              then clamp_coeff grp (weight_norm / update_norm) else 1);
                s2 = (if lamb_coeff \<noteq> 1
                      then s1\<lparr>lamb_coeff_freeze :=
                             coeff_beta opt * lamb_coeff_freeze s + (1 - coeff_beta opt) * lamb_coeff\<rparr>
                      else s1)
            in opt1\<lparr>state := (state opt)(p \<mapsto> Full s2),
                    lamb_coeffs := lamb_coeffs opt @ [lamb_coeff],
                    p_data := (p_data opt)
                      (p := map2 (\<lambda>w u. w + (- lr grp * lamb_coeff) * u) (p_data opt p) update)\<rparr>)
         else opt1\<lparr>state := (state opt)(p \<mapsto> Full s1)\<rparr>)"

text \<open>Compression stage: the momentum is updated locally and scaled.\<close>

definition compress_param ::
  "nat \<Rightarrow> nat \<Rightarrow> group \<Rightarrow> nat \<Rightarrow> pstate \<Rightarrow> tensor \<Rightarrow> optimizer \<Rightarrow> optimizer result" where
  "compress_param i j grp p s grad opt =
     (if initialize opt then
        (let beta1 = fst (betas grp);
             m = map2 (\<lambda>m g. beta1 * m + (1 - beta1) * g) (deref (exp_avg_flat opt) (exp_avg s)) grad;
             opt1 = opt\<lparr>state := (state opt)(p \<mapsto> Full (s\<lparr>exp_avg := write_ref (exp_avg s) m\<rparr>)),
                        exp_avg_flat := write_flat (exp_avg s) m (exp_avg_flat opt)\<rparr>
         in case nth2 (scaling_coeffs opt) i j of
              None \<Rightarrow> Inl (IndexError, opt1)
            | Some c \<Rightarrow>
                (let m1 = map (\<lambda>x. x * c) m
                 in Inr (opt\<lparr>state := (state opt)(p \<mapsto> Full (s\<lparr>exp_avg := write_ref (exp_avg s) m1\<rparr>)),
                             exp_avg_flat := write_flat (exp_avg s) m1 (exp_avg_flat opt)\<rparr>)))
      else Inr (opt\<lparr>state := (state opt)(p \<mapsto> Full s)\<rparr>))"

definition fresh_state :: "optimizer \<Rightarrow> nat \<Rightarrow> pstate" where
  "fresh_state opt p =
     \<lparr> step_count = 0, lamb_coeff_freeze = 0, last_factor = 1,
       exp_avg = Own (zeros (numel (p_data opt p))),
       exp_avg_sq = zeros (numel (p_data opt p)),
       exp_avg_sq_back = zeros (numel (p_data opt p)) \<rparr>"

text \<open>
  Lines 188-191: the gradient the loop works with, the override if there is one and
  \<^verbatim>\<open>p.grad\<close> otherwise; \<open>None\<close> when both are missing (the parameter is skipped).
\<close>

definition effective_grad :: "optimizer \<Rightarrow> nat \<Rightarrow> gradient option \<Rightarrow> gradient option" where
  "effective_grad opt p grad = (case grad of None \<Rightarrow> p_grad opt p | Some g \<Rightarrow> Some g)"

text \<open>
  Lines 195-250, for a parameter with the dense gradient \<open>g\<close>. The second component of
  the result is the local variable \<^verbatim>\<open>state\<close> of \<^verbatim>\<open>step\<close>, by the parameter whose
  state dict it is bound to.
\<close>

definition process_param ::
  "group \<Rightarrow> nat \<Rightarrow> nat \<Rightarrow> nat \<Rightarrow> tensor \<Rightarrow> optimizer \<Rightarrow> (optimizer \<times> nat option) result" where
  "process_param grp i j p g opt =
     (let entry = (case state opt p of None \<Rightarrow> Full (fresh_state opt p) | Some e \<Rightarrow> e);
          opt1 = opt\<lparr>state := (state opt)(p \<mapsto> entry)\<rparr>;
          opt2 = (if \<not> initialize opt1 then opt1\<lparr>lamb_freeze_key := True\<rparr> else opt1)
      in case entry of
           Smoothing_only _ _ \<Rightarrow> Inl (KeyError, opt2)
         | Full s \<Rightarrow>
             (let s1 = s\<lparr>step_count := step_count s + 1\<rparr>
              in if \<not> lamb_freeze_key opt2 then Inr (warmup_param grp p s1 g opt2, Some p)
                 else (case compress_param i j grp p s1 g opt2 of
                         Inl e \<Rightarrow> Inl e
                       | Inr opt3 \<Rightarrow> Inr (opt3, Some p))))"

text \<open>One iteration of the inner loop (lines 187-250).\<close>

definition step_param ::
  "group \<Rightarrow> nat \<Rightarrow> nat \<Rightarrow> nat \<Rightarrow> gradient option \<Rightarrow> optimizer \<times> nat option
     \<Rightarrow> (optimizer \<times> nat option) result" where
  "step_param grp i j p grad ol =
     (case effective_grad (fst ol) p grad of
        None \<Rightarrow> Inr ol
      | Some (Sparse _) \<Rightarrow> Inl (SparseGradient, fst ol)
      | Some (Dense g) \<Rightarrow> process_param grp i j p g (fst ol))"

fun step_params ::
  "group \<Rightarrow> nat \<Rightarrow> nat \<Rightarrow> nat list \<Rightarrow> gradient option list \<Rightarrow> optimizer \<times> nat option
     \<Rightarrow> (optimizer \<times> nat option) result" where
  "step_params grp i j (p # ps) (g # gs) ol =
     (case step_param grp i j p g ol of
        Inl e \<Rightarrow> Inl e
      | Inr ol1 \<Rightarrow> step_params grp i (Suc j) ps gs ol1)"
| "step_params grp i j _ _ ol = Inr ol"

fun step_groups ::
  "nat \<Rightarrow> group list \<Rightarrow> gradient option list option list \<Rightarrow> optimizer \<times> nat option
     \<Rightarrow> (optimizer \<times> nat option) result" where
  "step_groups i (grp # groups) (gs # gss) ol =
     (let grads_this_group =
            (case gs of None \<Rightarrow> replicate (length (params grp)) None | Some l \<Rightarrow> l)
      in case step_params grp i 0 (params grp) grads_this_group ol of
           Inl e \<Rightarrow> Inl e
         | Inr ol1 \<Rightarrow> step_groups (Suc i) groups gss ol1)"
| "step_groups i _ _ ol = Inr ol"

subsection \<open>Fused momentum (lines 252-277)\<close>

text \<open>
  \<^verbatim>\<open>for p, q in zip(momentum_groups, updated_params): p.data = q.data\<close>:
  every momentum tensor becomes the view of the fused buffer that holds its elements.
\<close>

definition rebind_one :: "nat \<Rightarrow> nat \<Rightarrow> nat \<Rightarrow> (nat \<rightharpoonup> pentry) \<Rightarrow> (nat \<rightharpoonup> pentry)" where
  "rebind_one off p n st =
     (case st p of
        Some (Full s) \<Rightarrow> st(p \<mapsto> Full (s\<lparr>exp_avg := View off n\<rparr>))
      | _ \<Rightarrow> st)"

fun rebind :: "nat \<Rightarrow> (nat \<times> tensor) list \<Rightarrow> (nat \<rightharpoonup> pentry) \<Rightarrow> (nat \<rightharpoonup> pentry)" where
  "rebind off [] st = st"
| "rebind off ((p, m) # pms) st = rebind (off + length m) pms (rebind_one off p (length m) st)"

definition padding :: "nat \<Rightarrow> nat \<Rightarrow> nat" where
  "padding tensor_size unit =
     (if tensor_size mod unit \<noteq> 0 then unit - tensor_size mod unit else 0)"

definition init_fused_momentum :: "optimizer \<Rightarrow> optimizer result" where
  "init_fused_momentum opt =
     (if exp_avg_flat opt \<noteq> [] then Inr opt
      else case those (map (momentum opt) (all_params opt)) of
        None \<Rightarrow> Inl (KeyError, opt)
      | Some momentum_groups \<Rightarrow>
          (let tensor_size = sum_list (map (\<lambda>p. numel (p_data opt p)) (all_params opt));
               unit = world_size opt * divider opt
           in if unit = 0 then Inl (ZeroDivisionError, opt)
              else
                (let difference = padding tensor_size unit;
                     corrected_tensor_size = tensor_size + difference;
                     opt1 = opt\<lparr>dummy_exp_avg :=
                                  (if difference \<noteq> 0
                                   then (dummy_exp_avg opt)
                                          (0 \<mapsto> View (length (concat momentum_groups)) difference)
                                   else dummy_exp_avg opt),
                                corrected_tensor_sizes :=
                                  corrected_tensor_sizes opt @ [corrected_tensor_size],
                                server_chunk_sizes :=
                                  server_chunk_sizes opt @ [corrected_tensor_size div world_size opt]\<rparr>
                 in if momentum_groups = [] then Inl (EmptyTensor, opt1)
                    else Inr (opt1\<lparr>exp_avg_flat :=
                                      exp_avg_flat opt @ [concat momentum_groups @ zeros difference],
                                    state := rebind 0 (zip (all_params opt) momentum_groups)
                                               (state opt)\<rparr>))))"

subsection \<open>Error buffers and the compressed reduction (lines 279-320)\<close>

fun alloc_errors :: "nat list \<Rightarrow> optimizer \<Rightarrow> optimizer result" where
  "alloc_errors [] opt = Inr opt"
| "alloc_errors (i # is) opt =
     (case nth_opt (corrected_tensor_sizes opt) i of
        None \<Rightarrow> Inl (IndexError, opt)
      | Some c \<Rightarrow>
          (let opt1 = opt\<lparr>worker_errors := worker_errors opt @ [zeros c]\<rparr>
           in case nth_opt (server_chunk_sizes opt) i of
                None \<Rightarrow> Inl (IndexError, opt1)
              | Some k \<Rightarrow>
                  alloc_errors is (opt1\<lparr>server_errors := server_errors opt @ [zeros k]\<rparr>)))"

definition init_error_buffers :: "optimizer \<Rightarrow> optimizer result" where
  "init_error_buffers opt =
     (if initialize opt \<and> worker_errors opt = []
      then alloc_errors [0..<length (exp_avg_flat opt)] opt
      else Inr opt)"

text \<open>
  \<^verbatim>\<open>self.comm_backend_handle.compressed_allreduce(buffer, worker_error, server_error, rank)\<close>
  belongs to the communication backend; it works in place on its three tensor arguments.
  It is a parameter of the model: the new contents of the three tensors.
\<close>

type_synonym allreduce = "tensor \<Rightarrow> tensor \<Rightarrow> tensor \<Rightarrow> tensor \<times> tensor \<times> tensor"

fun reduce_flat :: "allreduce \<Rightarrow> nat list \<Rightarrow> optimizer \<Rightarrow> optimizer result" where
  "reduce_flat car [] opt = Inr opt"
| "reduce_flat car (i # is) opt =
     (if \<not> initialize opt then
        (case nth_opt (corrected_tensor_sizes opt) i of
           None \<Rightarrow> Inl (IndexError, opt)
         | Some c \<Rightarrow>
             (let opt1 = opt\<lparr>worker_errors := worker_errors opt @ [zeros c]\<rparr>
              in case nth_opt (server_chunk_sizes opt) i of
                   None \<Rightarrow> Inl (IndexError, opt1)
                 | Some k \<Rightarrow>
                     (let opt2 = opt1\<lparr>server_errors := server_errors opt @ [zeros k]\<rparr>
                      in case car (exp_avg_flat opt2 ! i) (hd (worker_errors opt2))
                                  (hd (server_errors opt2)) of
                           (b, w, s) \<Rightarrow>
                             reduce_flat car is
                               (opt2\<lparr>exp_avg_flat := (exp_avg_flat opt2)[i := b],
                                      worker_errors := [], server_errors := []\<rparr>))))
      else
        (case nth_opt (worker_errors opt) i of
           None \<Rightarrow> Inl (IndexError, opt)
         | Some we \<Rightarrow>
             (case nth_opt (server_errors opt) i of
                None \<Rightarrow> Inl (IndexError, opt)
              | Some se \<Rightarrow>
                  (case car (exp_avg_flat opt ! i) we se of
                     (b, w, s) \<Rightarrow>
                       reduce_flat car is
                         (opt\<lparr>exp_avg_flat := (exp_avg_flat opt)[i := b],
                               worker_errors := (worker_errors opt)[i := w],
                               server_errors := (server_errors opt)[i := s]\<rparr>)))))"

definition reduce_momentum :: "allreduce \<Rightarrow> optimizer \<Rightarrow> optimizer result" where
  "reduce_momentum car opt =
     (if lamb_freeze_key opt \<and> world_size opt > 1
      then reduce_flat car [0..<length (exp_avg_flat opt)] opt
      else Inr opt)"

subsection \<open>The compression-stage update (lines 322-373)\<close>

text \<open>Lines 359-366: the clamp to the factor bounds, then the rate limit around \<open>prev\<close>.\<close>

definition limit_factor :: "optimizer \<Rightarrow> real \<Rightarrow> real \<Rightarrow> real" where
  "limit_factor opt prev factor =
     (let f1 = (if factor > factor_max opt then factor_max opt else factor);
          f2 = (if f1 < factor_min opt then factor_min opt else f1);
          f3 = (if f2 > prev * (1 + factor_threshold opt)
                then prev * (1 + factor_threshold opt) else f2)
      in if f3 < prev * (1 - factor_threshold opt)
         then prev * (1 - factor_threshold opt) else f3)"

text \<open>Lines 342-358: the factor before the limits, from the two denominators.\<close>

definition raw_factor :: "group \<Rightarrow> tensor \<Rightarrow> tensor \<Rightarrow> tensor \<Rightarrow> tensor \<Rightarrow> real" where
  "raw_factor grp denom denom_real update_prelim update =
     (let factor = tmax (map2 (\<lambda>a b. a / b) denom denom_real)
      in if weight_decay grp > 0
         then (let update_ratio = min 1 (norm2 update_prelim / norm2 update)
               in factor * update_ratio + (1 - update_ratio))
         else factor)"

definition update_param ::
  "tensor list list \<Rightarrow> group \<Rightarrow> nat \<Rightarrow> nat \<Rightarrow> nat \<Rightarrow> optimizer \<Rightarrow> optimizer result" where
  "update_param exp_avg_last_step grp i j p opt =
     (case state opt p of
        Some (Full s) \<Rightarrow>
          (case nth2 (scaling_coeffs opt) i j of
             None \<Rightarrow> Inl (IndexError, opt)
           | Some c \<Rightarrow>
               (let beta1 = fst (betas grp); beta2 = snd (betas grp);
                    m1 = map (\<lambda>x. x / c) (deref (exp_avg_flat opt) (exp_avg s));
                    m = (case exp_avg_mask grp of None \<Rightarrow> m1
                         | Some msk \<Rightarrow> map2 (\<lambda>x k. x * k) m1 msk);
                    s1 = s\<lparr>exp_avg := write_ref (exp_avg s) m\<rparr>;
                    opt1 = opt\<lparr>exp_avg_flat := write_flat (exp_avg s) m (exp_avg_flat opt),
                               state := (state opt)(p \<mapsto> Full s1)\<rparr>
                in case nth2 exp_avg_last_step i j of
                     None \<Rightarrow> Inl (IndexError, opt1)
                   | Some m_last \<Rightarrow>
                       (let grad_reconstruct =
                              map2 (\<lambda>x l. (x - l * beta1) / (1 - beta1)) m m_last;
                            back = map2 (\<lambda>b g. beta2 * b + (1 - beta2) * g * g)
                                     (exp_avg_sq_back s) grad_reconstruct;
                            s2 = s1\<lparr>exp_avg_sq_back := back\<rparr>;
                            denom = map (\<lambda>v. sqrt v + eps grp) (exp_avg_sq s);
                            update_prelim = map2 (\<lambda>x d. x / d) m denom;
                            update = (if weight_decay grp > 0
                                      then map2 (\<lambda>u w. u + weight_decay grp * w)
                                             update_prelim (p_data opt p)
                                      else update_prelim);
                            denom_real = map (\<lambda>b. sqrt b + eps grp) back
                        in if map2 (\<lambda>a b. a / b) denom denom_real = []
                           then Inl (EmptyTensor, opt1\<lparr>state := (state opt)(p \<mapsto> Full s2)\<rparr>)
                           else
                             (let factor = limit_factor opt (last_factor s)
                                             (raw_factor grp denom denom_real update_prelim update);
                                  lamb_coeff = lamb_coeff_freeze s * factor
                              in Inr (opt1\<lparr>state := (state opt)
                                               (p \<mapsto> Full (s2\<lparr>last_factor := factor\<rparr>)),
                                            lamb_coeffs := lamb_coeffs opt @ [lamb_coeff],
                                            p_data := (p_data opt)
                                              (p := map2 (\<lambda>w u. w + (- lr grp * lamb_coeff) * u)
                                                      (p_data opt p) update)\<rparr>)))))
      | _ \<Rightarrow> Inl (KeyError, opt))"

fun update_params ::
  "tensor list list \<Rightarrow> group \<Rightarrow> nat \<Rightarrow> nat \<Rightarrow> nat list \<Rightarrow> optimizer \<Rightarrow> optimizer result" where
  "update_params last_step grp i j [] opt = Inr opt"
| "update_params last_step grp i j (p # ps) opt =
     (case update_param last_step grp i j p opt of
        Inl e \<Rightarrow> Inl e
      | Inr opt1 \<Rightarrow> update_params last_step grp i (Suc j) ps opt1)"

fun update_groups ::
  "tensor list list \<Rightarrow> nat \<Rightarrow> group list \<Rightarrow> optimizer \<Rightarrow> optimizer result" where
  "update_groups last_step i [] opt = Inr opt"
| "update_groups last_step i (grp # groups) opt =
     (case update_params last_step grp i 0 (params grp) opt of
        Inl e \<Rightarrow> Inl e
      | Inr opt1 \<Rightarrow> update_groups last_step (Suc i) groups opt1)"

definition compression_update ::
  "tensor list list option \<Rightarrow> optimizer \<Rightarrow> optimizer result" where
  "compression_update exp_avg_last_step opt =
     (if lamb_freeze_key opt \<and> initialize opt then
        (case exp_avg_last_step of
           None \<Rightarrow> Inl (UnboundLocalError, opt)
         | Some last_step \<Rightarrow> update_groups last_step 0 (param_groups opt) opt)
      else Inr opt)"

subsection \<open>End of the step (lines 375-388)\<close>

text \<open>
  \<open>bound\<close> is the parameter whose state dict the local variable \<^verbatim>\<open>state\<close> is bound to
  when the parameter loop ends (the branch that reads it runs only when the compression
  update, which rebinds it, did not run), \<open>None\<close> when it was never bound.
\<close>

definition finish :: "optimizer \<Rightarrow> nat option \<Rightarrow> optimizer result" where
  "finish opt bound =
     (if \<not> initialize opt then Inr (opt\<lparr>lamb_freeze_key := False, initialize := True\<rparr>)
      else if \<not> lamb_freeze_key opt then
        (case bound of
           None \<Rightarrow> Inl (UnboundLocalError, opt)
         | Some p \<Rightarrow>
             (case state opt p of
                Some (Full s) \<Rightarrow>
                  (if step_count s \<ge> freeze_step opt
                   then Inr (opt\<lparr>lamb_freeze_key := True, enable_backward_allreduce := False\<rparr>)
                   else Inr opt)
              | _ \<Rightarrow> Inl (KeyError, opt)))
      else Inr opt)"

definition bind :: "'a result \<Rightarrow> ('a \<Rightarrow> 'b result) \<Rightarrow> 'b result" where
  "bind r f = (case r of Inl e \<Rightarrow> Inl e | Inr x \<Rightarrow> f x)"

text \<open>\<^verbatim>\<open>OnebitLamb.step\<close>: \<open>Inr\<close> the optimizer after the call, \<open>Inl\<close> the exception raised
  and the optimizer as the raise left it.\<close>

definition step :: "allreduce \<Rightarrow> optimizer \<Rightarrow> grads_arg \<Rightarrow> optimizer result" where
  "step car opt grads =
     (case grads_group_of opt grads of
        Inl e \<Rightarrow> Inl (e, opt)
      | Inr grads_group \<Rightarrow>
          bind (pre_compression (opt\<lparr>lamb_coeffs := []\<rparr>)) (\<lambda>(opt1, exp_avg_last_step).
          bind (step_groups 0 (param_groups opt1) grads_group (opt1, None)) (\<lambda>(opt2, bound).
          bind (init_fused_momentum opt2) (\<lambda>opt3.
          bind (init_error_buffers opt3) (\<lambda>opt4.
          bind (reduce_momentum car opt4) (\<lambda>opt5.
          bind (compression_update exp_avg_last_step opt5) (\<lambda>opt6.
          finish opt6 bound)))))))"

section \<open>Checkpoints\<close>

text \<open>
  The dict \<^verbatim>\<open>state_dict()\<close> returns, as a checkpoint holds it: the state by the
  parameters' positions, the groups with those positions for \<^verbatim>\<open>params\<close>, and the
  three 1-bit Lamb keys (\<open>None\<close>: the key is missing). A checkpoint holds the values of
  the tensors (\<open>Own\<close>), not views.
\<close>

record checkpoint =
  ck_state :: "nat \<rightharpoonup> pentry"
  ck_param_groups :: "group list"
  ck_worker_errors :: "tensor list option"
  ck_server_errors :: "tensor list option"
  ck_scaling_coeffs :: "real list list option"

definition save_entry :: "optimizer \<Rightarrow> pentry \<Rightarrow> pentry" where
  "save_entry opt e =
     (case e of
        Full s \<Rightarrow> Full (s\<lparr>exp_avg := Own (deref (exp_avg_flat opt) (exp_avg s))\<rparr>)
      | Smoothing_only a b \<Rightarrow> Smoothing_only a b)"

fun pack_groups :: "nat \<Rightarrow> group list \<Rightarrow> group list" where
  "pack_groups start [] = []"
| "pack_groups start (grp # groups) =
     grp\<lparr>params := [start..<start + length (params grp)]\<rparr>
       # pack_groups (start + length (params grp)) groups"

text \<open>
  \<^verbatim>\<open>torch.optim.Optimizer.state_dict\<close> (the base class, of the torch library): the
  groups with their parameters replaced by positions, and the state keyed by position.
  The parameters of the groups are taken to be distinct, as the base class expects.
\<close>

definition base_state_dict :: "optimizer \<Rightarrow> (nat \<rightharpoonup> pentry) \<times> group list" where
  "base_state_dict opt =
     ((\<lambda>k. case nth_opt (all_params opt) k of
              None \<Rightarrow> None
            | Some p \<Rightarrow> map_option (save_entry opt) (state opt p)),
      pack_groups 0 (param_groups opt))"

text \<open>\<^verbatim>\<open>OnebitLamb.state_dict\<close> (lines 390-398).\<close>

definition state_dict :: "optimizer \<Rightarrow> checkpoint" where
  "state_dict opt =
     \<lparr> ck_state = fst (base_state_dict opt),
       ck_param_groups = snd (base_state_dict opt),
       ck_worker_errors = Some (worker_errors opt),
       ck_server_errors = Some (server_errors opt),
       ck_scaling_coeffs = Some (scaling_coeffs opt) \<rparr>"

text \<open>
  \<^verbatim>\<open>torch.optim.Optimizer.load_state_dict\<close> (the base class, of the torch library): a
  ValueError when the groups or their sizes differ; otherwise the state is replaced by
  the checkpoint's, position by position, and every group by the checkpoint's group
  with the live group's parameters.
\<close>

definition load_entry ::
  "(nat \<rightharpoonup> pentry) \<Rightarrow> nat \<times> nat \<Rightarrow> (nat \<rightharpoonup> pentry) \<Rightarrow> (nat \<rightharpoonup> pentry)" where
  "load_entry saved kp st = (case saved (fst kp) of None \<Rightarrow> st | Some v \<Rightarrow> st(snd kp \<mapsto> v))"

definition load_state :: "(nat \<rightharpoonup> pentry) \<Rightarrow> (nat \<times> nat) list \<Rightarrow> (nat \<rightharpoonup> pentry)" where
  "load_state saved pairs = fold (load_entry saved) pairs Map.empty"

definition base_load_state_dict :: "optimizer \<Rightarrow> checkpoint \<Rightarrow> optimizer result" where
  "base_load_state_dict opt ck =
     (if length (param_groups opt) \<noteq> length (ck_param_groups ck) then Inl (ValueError, opt)
      else if map (\<lambda>g. length (params g)) (param_groups opt)
              \<noteq> map (\<lambda>g. length (params g)) (ck_param_groups ck) then Inl (ValueError, opt)
      else Inr (opt\<lparr>state := load_state (ck_state ck)
                               (zip (concat (map params (ck_param_groups ck))) (all_params opt)),
                     param_groups := map2 (\<lambda>g new_group. new_group\<lparr>params := params g\<rparr>)
                                       (param_groups opt) (ck_param_groups ck)\<rparr>))"

text \<open>Lines 413-414: the masks of the live groups are put back.\<close>

definition restore_masks :: "group list \<Rightarrow> group list \<Rightarrow> group list" where
  "restore_masks live loaded =
     map2 (\<lambda>g new_group. case exp_avg_mask g of
                             None \<Rightarrow> new_group
                           | Some v \<Rightarrow> new_group\<lparr>exp_avg_mask := Some v\<rparr>) live loaded"

text \<open>Lines 445-448.\<close>

definition reset_entry :: "nat \<Rightarrow> (nat \<rightharpoonup> pentry) \<Rightarrow> (nat \<rightharpoonup> pentry)" where
  "reset_entry p st =
     st(p \<mapsto> (case st p of
                  Some (Full s) \<Rightarrow> Full (s\<lparr>lamb_coeff_freeze := 0, last_factor := 1\<rparr>)
                | _ \<Rightarrow> Smoothing_only 0 1))"

definition reset_smoothing :: "nat list \<Rightarrow> (nat \<rightharpoonup> pentry) \<Rightarrow> (nat \<rightharpoonup> pentry)" where
  "reset_smoothing ps st = fold reset_entry ps st"

text \<open>\<^verbatim>\<open>self.param_groups[0]['params'][0]\<close>, or an IndexError (\<open>None\<close>).\<close>

definition first_param :: "group list \<Rightarrow> nat option" where
  "first_param groups =
     (case groups of
        [] \<Rightarrow> None
      | grp # _ \<Rightarrow> (case params grp of [] \<Rightarrow> None | p # _ \<Rightarrow> Some p))"

text \<open>\<^verbatim>\<open>OnebitLamb.load_state_dict\<close> (lines 400-448).\<close>

text \<open>Lines 424-433: the compression stage continues.\<close>

definition load_lamb_states :: "checkpoint \<Rightarrow> optimizer \<Rightarrow> optimizer result" where
  "load_lamb_states ck opt =
     (case ck_worker_errors ck of
        None \<Rightarrow> Inl (KeyError, opt)
      | Some we \<Rightarrow>
          (case ck_server_errors ck of
             None \<Rightarrow> Inl (KeyError, opt\<lparr>worker_errors := we\<rparr>)
           | Some se \<Rightarrow>
               (case ck_scaling_coeffs ck of
                  None \<Rightarrow> Inl (KeyError, opt\<lparr>worker_errors := we, server_errors := se\<rparr>)
                | Some sc \<Rightarrow>
                    (if length se < length we
                     then Inl (IndexError, opt\<lparr>worker_errors := we, server_errors := se,
                                              scaling_coeffs := sc\<rparr>)
                     else Inr (opt\<lparr>worker_errors := we, server_errors := se,
                                    scaling_coeffs := sc\<rparr>)))))"

text \<open>Lines 439-448: the warmup stage starts or continues.\<close>

definition reset_lamb_states :: "optimizer \<Rightarrow> optimizer" where
  "reset_lamb_states opt =
     opt\<lparr>lamb_freeze_key := False,
         enable_backward_allreduce :=
           (if lamb_freeze_key opt then True else enable_backward_allreduce opt),
         worker_errors := [], server_errors := [], scaling_coeffs := [],
         state := reset_smoothing (all_params opt) (state opt)\<rparr>"

text \<open>Lines 413-418: the live masks are put back and the fused momentum is dropped.\<close>

definition reset_fused :: "group list \<Rightarrow> optimizer \<Rightarrow> optimizer" where
  "reset_fused live opt =
     opt\<lparr>param_groups := restore_masks live (param_groups opt),
         exp_avg_flat := [], dummy_exp_avg := Map.empty,
         corrected_tensor_sizes := [], server_chunk_sizes := []\<rparr>"

definition load_state_dict :: "optimizer \<Rightarrow> checkpoint \<Rightarrow> optimizer result" where
  "load_state_dict opt ck =
     bind (base_load_state_dict opt ck) (\<lambda>opt1.
       (let opt2 = reset_fused (param_groups opt) opt1
        in case first_param (param_groups opt2) of
             None \<Rightarrow> Inl (IndexError, opt2)
           | Some first \<Rightarrow>
               (case state opt2 first of
                  Some (Full s) \<Rightarrow>
                    (if step_count s \<ge> freeze_step opt2 then load_lamb_states ck opt2
                     else Inr (reset_lamb_states opt2))
                | _ \<Rightarrow> Inl (KeyError, opt2))))"

section \<open>Auxiliary definitions for the properties\<close>

definition is_full :: "pentry option \<Rightarrow> bool" where
  "is_full e = (case e of Some (Full _) \<Rightarrow> True | _ \<Rightarrow> False)"


definition ex_group :: group where
  "ex_group = \<lparr> params = [0], lr = 1, bias_correction = True, betas = (1/2, 1/2), eps = 1,
          weight_decay = 0, max_grad_norm = 0, max_coeff = 10, min_coeff = 1/100,
          exp_avg_mask = None \<rparr>"

definition ex_state :: pstate where
  "ex_state = \<lparr> step_count = 1, lamb_coeff_freeze = 1/2, last_factor = 1, exp_avg = Own [1, 2, 3],
          exp_avg_sq = [1, 1, 1], exp_avg_sq_back = [1, 1, 1] \<rparr>"

definition ex_opt :: optimizer where
  "ex_opt = (init_optimizer [ex_group] (\<lambda>_. [0, 0, 0]) 2 (1/2) (9/2) (1/2) (1/2) 1)
          \<lparr>state := [0 \<mapsto> Full ex_state]\<rparr>"

text \<open>The optimizer after a call, whether the call returned or raised.\<close>

definition after :: "optimizer result \<Rightarrow> optimizer" where
  "after r = (case r of Inl (e, opt) \<Rightarrow> opt | Inr opt \<Rightarrow> opt)"

text \<open>The two smoothing fields of a state dict: \<open>(lamb_coeff_freeze, last_factor)\<close>.\<close>

definition smoothing :: "pentry \<Rightarrow> real \<times> real" where
  "smoothing e =
     (case e of Full s \<Rightarrow> (lamb_coeff_freeze s, last_factor s) | Smoothing_only a b \<Rightarrow> (a, b))"

text \<open>Example optimizers: one past its freeze step with the compression state, a fresh
  one, and one whose group has a mask.\<close>

definition ex_saved :: optimizer where
  "ex_saved = ex_opt\<lparr>lamb_freeze_key := True, initialize := True,
                     state := [0 \<mapsto> Full (ex_state\<lparr>step_count := 5\<rparr>)],
                     worker_errors := [[1, 1, 1]], server_errors := [[2, 2, 2]],
                     scaling_coeffs := [[1]], enable_backward_allreduce := False\<rparr>"

definition ex_fresh :: optimizer where
  "ex_fresh = init_optimizer [ex_group] (\<lambda>_. [0, 0, 0]) 2 (1/2) (9/2) (1/2) (1/2) 1"

definition ex_masked :: optimizer where
  "ex_masked = ex_opt\<lparr>param_groups := [ex_group\<lparr>exp_avg_mask := Some [1, 0, 1]\<rparr>]\<rparr>"

text \<open>
  What \<open>step\<close> never changes (\<open>config\<close>), and what its work on the parameters does not
  change either (\<open>buffers\<close>, and for one parameter after its state is found the stage
  flag).
\<close>

definition config ::
  "optimizer \<Rightarrow> group list \<times> (nat \<Rightarrow> gradient option) \<times> int \<times> real \<times> real \<times> real \<times> real \<times> nat \<times> nat" where
  "config opt = (param_groups opt, p_grad opt, freeze_step opt, coeff_beta opt, factor_max opt,
                 factor_min opt, factor_threshold opt, world_size opt, divider opt)"

definition buffers ::
  "optimizer \<Rightarrow> (nat \<rightharpoonup> tref) \<times> nat list \<times> nat list \<times> tensor list \<times> tensor list \<times> real list list \<times> bool \<times> bool" where
  "buffers opt = (dummy_exp_avg opt, corrected_tensor_sizes opt, server_chunk_sizes opt,
                  worker_errors opt, server_errors opt, scaling_coeffs opt,
                  enable_backward_allreduce opt, initialize opt)"

definition param_frame :: "optimizer \<Rightarrow> optimizer \<Rightarrow> bool" where
  "param_frame opt opt' =
     (config opt' = config opt \<and> buffers opt' = buffers opt
      \<and> lamb_freeze_key opt' = lamb_freeze_key opt)"

definition main_frame :: "optimizer \<Rightarrow> optimizer \<Rightarrow> bool" where
  "main_frame opt opt' = (config opt' = config opt \<and> buffers opt' = buffers opt)"

definition after_loop :: "(optimizer \<times> 'a) result \<Rightarrow> optimizer" where
  "after_loop r = (case r of Inl (e, opt) \<Rightarrow> opt | Inr (opt, b) \<Rightarrow> opt)"

text \<open>
  The parameters the loop of \<open>step\<close> meets, in its order, each with its gradient
  (\<open>effective_grad\<close>); \<open>grads_group\<close> is the normalised \<^verbatim>\<open>grads\<close> argument.
\<close>

definition group_positions :: "optimizer \<Rightarrow> group \<Rightarrow> gradient option list option \<Rightarrow> (nat \<times> gradient option) list" where
  "group_positions opt grp gs =
     map (\<lambda>(p, g). (p, effective_grad opt p g))
       (zip (params grp) (case gs of None \<Rightarrow> replicate (length (params grp)) None | Some l \<Rightarrow> l))"

definition positions :: "optimizer \<Rightarrow> gradient option list option list \<Rightarrow> (nat \<times> gradient option) list" where
  "positions opt grads_group =
     concat (map (\<lambda>(grp, gs). group_positions opt grp gs) (zip (param_groups opt) grads_group))"

definition dense_params :: "(nat \<times> gradient option) list \<Rightarrow> nat set" where
  "dense_params pgs = {p. \<exists>t. (p, Some (Dense t)) \<in> set pgs}"

text \<open>
  What the parameter loop does between two states, \<open>D\<close> being the parameters it has worked
  on: nothing outside \<open>D\<close>; no parameter data before the first step has finished; the
  stage flag only then; the last factor of no state dict, a new one starting at one.
\<close>

definition loop_rel :: "nat set \<Rightarrow> optimizer \<Rightarrow> optimizer \<Rightarrow> bool" where
  "loop_rel D opt opt' =
     (main_frame opt opt'
      \<and> (\<forall>q. q \<notin> D \<longrightarrow> state opt' q = state opt q \<and> p_data opt' q = p_data opt q)
      \<and> (\<not> initialize opt \<longrightarrow> p_data opt' = p_data opt)
      \<and> (initialize opt \<longrightarrow> lamb_freeze_key opt' = lamb_freeze_key opt)
      \<and> (lamb_freeze_key opt \<longrightarrow> lamb_freeze_key opt')
      \<and> length (exp_avg_flat opt') = length (exp_avg_flat opt)
      \<and> (\<forall>q e. state opt q = Some e \<longrightarrow>
            (\<exists>e'. state opt' q = Some e' \<and> snd (smoothing e') = snd (smoothing e)
                  \<and> is_full (Some e') = is_full (Some e)))
      \<and> (\<forall>q e'. state opt q = None \<longrightarrow> state opt' q = Some e' \<longrightarrow> snd (smoothing e') = 1))"

text \<open>
  What the error buffers' allocation and the reduction leave as it is: everything but the
  contents of the fused buffer and the error buffers.
\<close>

definition rest_frame :: "optimizer \<Rightarrow> optimizer \<Rightarrow> bool" where
  "rest_frame opt opt' =
     (config opt' = config opt \<and> p_data opt' = p_data opt \<and> state opt' = state opt
      \<and> lamb_freeze_key opt' = lamb_freeze_key opt \<and> initialize opt' = initialize opt
      \<and> scaling_coeffs opt' = scaling_coeffs opt \<and> lamb_coeffs opt' = lamb_coeffs opt
      \<and> enable_backward_allreduce opt' = enable_backward_allreduce opt
      \<and> dummy_exp_avg opt' = dummy_exp_avg opt
      \<and> corrected_tensor_sizes opt' = corrected_tensor_sizes opt
      \<and> server_chunk_sizes opt' = server_chunk_sizes opt
      \<and> length (exp_avg_flat opt') = length (exp_avg_flat opt))"

text \<open>A state dict without its momentum reference.\<close>

definition forget :: "pentry \<Rightarrow> pentry" where
  "forget e = (case e of Full s \<Rightarrow> Full (s\<lparr>exp_avg := Own []\<rparr>) | Smoothing_only a b \<Rightarrow> Smoothing_only a b)"

text \<open>A freshly constructed optimizer whose parameter has a (zero) gradient, and an
  identity stand-in for the backend's reduction.\<close>

definition ex_boot :: optimizer where
  "ex_boot = ex_fresh\<lparr>p_grad := (\<lambda>_. Some (Dense [0, 0, 0]))\<rparr>"

definition ex_car :: allreduce where
  "ex_car b w s = (b, w, s)"

text \<open>The optimizer \<open>ex_boot\<close> after its first step.\<close>

definition ex_booted :: optimizer where
  "ex_booted = ex_boot\<lparr>state := [0 \<mapsto> Full \<lparr>step_count = 1, lamb_coeff_freeze = 0, last_factor = 1,
                                     exp_avg = View 0 3, exp_avg_sq = [0, 0, 0],
                                     exp_avg_sq_back = [0, 0, 0]\<rparr>],
                       initialize := True,
                       exp_avg_flat := [[0, 0, 0, 0, 0, 0, 0, 0]],
                       dummy_exp_avg := [0 \<mapsto> View 3 5],
                       corrected_tensor_sizes := [8], server_chunk_sizes := [8]\<rparr>"

text \<open>The same fresh optimizer with another \<^verbatim>\<open>freeze_step\<close>.\<close>

definition ex_boot_at :: "int \<Rightarrow> optimizer" where
  "ex_boot_at fs = ex_boot\<lparr>freeze_step := fs\<rparr>"

text \<open>The optimizer \<open>ex_booted\<close> after one more step, its second.\<close>

definition ex_frozen :: optimizer where
  "ex_frozen = ex_booted\<lparr>state := [0 \<mapsto> Full \<lparr>step_count = 2, lamb_coeff_freeze = 0, last_factor = 1,
                                     exp_avg = View 0 3, exp_avg_sq = [0, 0, 0],
                                     exp_avg_sq_back = [0, 0, 0]\<rparr>],
                         lamb_coeffs := [1],
                         worker_errors := [[0, 0, 0, 0, 0, 0, 0, 0]],
                         server_errors := [[0, 0, 0, 0, 0, 0, 0, 0]],
                         lamb_freeze_key := True, enable_backward_allreduce := False\<rparr>"

text \<open>
  The parameters the loop of a call \<open>step car opt grads\<close> meets, each with its gradient;
  none when the \<^verbatim>\<open>grads\<close> argument is rejected before the loop.
\<close>

definition loop_positions :: "optimizer \<Rightarrow> grads_arg \<Rightarrow> (nat \<times> gradient option) list" where
  "loop_positions opt grads =
     (case grads_group_of opt grads of Inl e \<Rightarrow> [] | Inr grads_group \<Rightarrow> positions opt grads_group)"

text \<open>A fresh optimizer with two parameters, the first with a dense gradient and the second
  with a sparse one.\<close>

definition ex_two :: optimizer where
  "ex_two = (init_optimizer [ex_group\<lparr>params := [0, 1]\<rparr>] (\<lambda>_. [0, 0, 0]) 2 (1/2) (9/2) (1/2) (1/2) 1)
              \<lparr>p_grad := (\<lambda>p. if p = 0 then Some (Dense [0, 0, 0]) else Some (Sparse [0, 0, 0]))\<rparr>"

section \<open>Properties: auxiliary facts\<close>




lemma compute_divider_lcm: "compute_divider sz = lcm sz 8"
  unfolding compute_divider_def by (simp add: lcm_nat_def)


lemma is_fullE: "is_full e \<Longrightarrow> \<exists>s. e = Some (Full s)"
  by (auto simp: is_full_def split: option.splits pentry.splits)

lemma rebind_one_full: "is_full (rebind_one off p n st q) = is_full (st q)"
  by (auto simp: rebind_one_def is_full_def split: option.splits pentry.splits)



lemma rebind_full: "is_full (rebind off pms st q) = is_full (st q)"
proof (induction pms arbitrary: off st)
  case Nil
  then show ?case by simp
next
  case (Cons a pms)
  obtain p k where a: "a = (p, k)" by (cases a)
  show ?case unfolding a by (simp add: Cons.IH rebind_one_full)
qed





lemma init_fused_momentum_Inr:
  assumes "exp_avg_flat opt = []" and "init_fused_momentum opt = Inr opt'"
  shows "\<exists>ms. those (map (momentum opt) (all_params opt)) = Some ms \<and> ms \<noteq> []
           \<and> world_size opt * divider opt \<noteq> 0
           \<and> opt' = opt\<lparr>dummy_exp_avg :=
                 (if padding (sum_list (map (\<lambda>p. numel (p_data opt p)) (all_params opt)))
                       (world_size opt * divider opt) \<noteq> 0
                  then (dummy_exp_avg opt)(0 \<mapsto> View (length (concat ms))
                         (padding (sum_list (map (\<lambda>p. numel (p_data opt p)) (all_params opt)))
                            (world_size opt * divider opt)))
                  else dummy_exp_avg opt),
                corrected_tensor_sizes := corrected_tensor_sizes opt @
                  [sum_list (map (\<lambda>p. numel (p_data opt p)) (all_params opt))
                    + padding (sum_list (map (\<lambda>p. numel (p_data opt p)) (all_params opt)))
                        (world_size opt * divider opt)],
                server_chunk_sizes := server_chunk_sizes opt @
                  [(sum_list (map (\<lambda>p. numel (p_data opt p)) (all_params opt))
                    + padding (sum_list (map (\<lambda>p. numel (p_data opt p)) (all_params opt)))
                        (world_size opt * divider opt)) div world_size opt],
                exp_avg_flat := [concat ms @ zeros (padding (sum_list (map (\<lambda>p. numel (p_data opt p)) (all_params opt)))
                        (world_size opt * divider opt))],
                state := rebind 0 (zip (all_params opt) ms) (state opt)\<rparr>"
  using assms
  unfolding init_fused_momentum_def
  by (auto simp: Let_def split: option.splits if_splits)






section \<open>Concrete optimizers\<close>




lemma pad38: "padding (Suc (Suc (Suc 0))) 8 = 5"
  by (simp add: padding_def)


lemmas ex_load_defs =
  load_state_dict_def bind_def base_load_state_dict_def state_dict_def
  base_state_dict_def ex_saved_def ex_fresh_def ex_opt_def ex_masked_def init_optimizer_def
  ex_group_def all_params_def load_state_def load_entry_def nth_opt_def save_entry_def deref_def
  ex_state_def reset_fused_def restore_masks_def first_param_def load_lamb_states_def
  reset_lamb_states_def reset_smoothing_def reset_entry_def

lemma ex_load_fresh:
  "load_state_dict ex_fresh (state_dict ex_saved) =
     Inr (ex_fresh\<lparr>state := [0 \<mapsto> Full (ex_state\<lparr>step_count := 5\<rparr>)],
                   worker_errors := [[1, 1, 1]], server_errors := [[2, 2, 2]],
                   scaling_coeffs := [[1]]\<rparr>)"
  by (simp add: ex_load_defs)

lemma ex_load_warm:
  "load_state_dict ex_saved (state_dict ex_opt) =
     Inr (ex_saved\<lparr>lamb_freeze_key := False, enable_backward_allreduce := True,
                   worker_errors := [], server_errors := [], scaling_coeffs := [],
                   state := [0 \<mapsto> Full (ex_state\<lparr>lamb_coeff_freeze := 0, last_factor := 1\<rparr>)]\<rparr>)"
  by (simp add: ex_load_defs)

lemma ex_load_masked:
  "load_state_dict ex_opt (state_dict ex_masked) =
     Inr (ex_opt\<lparr>param_groups := [ex_group\<lparr>exp_avg_mask := Some [1, 0, 1]\<rparr>],
                 state := [0 \<mapsto> Full (ex_state\<lparr>lamb_coeff_freeze := 0, last_factor := 1\<rparr>)]\<rparr>)"
  by (simp add: ex_load_defs)

section \<open>Facts about \<open>load_state_dict\<close>\<close>

lemma restore_masks_length:
  "length live = length loaded \<Longrightarrow> length (restore_masks live loaded) = length live"
  by (simp add: restore_masks_def)

lemma restore_masks_nth:
  "length live = length loaded \<Longrightarrow> k < length live \<Longrightarrow>
     restore_masks live loaded ! k =
       (case exp_avg_mask (live ! k) of
          None \<Rightarrow> loaded ! k
        | Some v \<Rightarrow> (loaded ! k)\<lparr>exp_avg_mask := Some v\<rparr>)"
  by (simp add: restore_masks_def)

lemma base_load_Inr:
  "base_load_state_dict opt ck = Inr opt1 \<Longrightarrow>
     length (ck_param_groups ck) = length (param_groups opt)
     \<and> map (\<lambda>g. length (params g)) (param_groups opt) = map (\<lambda>g. length (params g)) (ck_param_groups ck)
     \<and> opt1 = opt\<lparr>state := load_state (ck_state ck)
                               (zip (concat (map params (ck_param_groups ck))) (all_params opt)),
                     param_groups := map2 (\<lambda>g new_group. new_group\<lparr>params := params g\<rparr>)
                                       (param_groups opt) (ck_param_groups ck)\<rparr>"
  by (auto simp: base_load_state_dict_def split: if_splits)

lemma base_load_Inl:
  "base_load_state_dict opt ck = Inl (e, opt1) \<Longrightarrow> opt1 = opt"
  by (auto simp: base_load_state_dict_def split: if_splits)

lemma load_lamb_states_groups:
  "param_groups (after (load_lamb_states ck opt)) = param_groups opt"
  by (simp add: load_lamb_states_def after_def split: option.splits)

lemma load_state_dict_groups:
  "param_groups (after (load_state_dict opt ck)) =
     (case base_load_state_dict opt ck of
        Inl _ \<Rightarrow> param_groups opt
      | Inr opt1 \<Rightarrow> restore_masks (param_groups opt) (param_groups opt1))"
proof (cases "base_load_state_dict opt ck")
  case (Inl a)
  obtain e o1 where a: "a = (e, o1)" by (cases a)
  with Inl base_load_Inl have "o1 = opt" by blast
  then show ?thesis using Inl a by (simp add: load_state_dict_def bind_def after_def)
next
  case (Inr opt1)
  let ?opt2 = "reset_fused (param_groups opt) opt1"
  have g2: "param_groups ?opt2 = restore_masks (param_groups opt) (param_groups opt1)"
    by (simp add: reset_fused_def)
  have "param_groups (after (load_state_dict opt ck)) = param_groups ?opt2"
  proof (cases "first_param (param_groups ?opt2)")
    case None
    then show ?thesis using Inr by (simp add: load_state_dict_def bind_def after_def Let_def)
  next
    case (Some first)
    show ?thesis
    proof (cases "state ?opt2 first")
      case None
      then show ?thesis using Inr Some by (simp add: load_state_dict_def bind_def after_def Let_def)
    next
      case (Some e)
      show ?thesis
      proof (cases e)
        case (Full s)
        show ?thesis
        proof (cases "step_count s \<ge> freeze_step ?opt2")
          case True
          then have "load_state_dict opt ck = load_lamb_states ck ?opt2"
            using Inr \<open>first_param (param_groups ?opt2) = Some first\<close> Some Full
            by (simp add: load_state_dict_def bind_def Let_def)
          then show ?thesis by (simp add: load_lamb_states_groups)
        next
          case False
          then have "load_state_dict opt ck = Inr (reset_lamb_states ?opt2)"
            using Inr \<open>first_param (param_groups ?opt2) = Some first\<close> Some Full
            by (simp add: load_state_dict_def bind_def Let_def)
          then show ?thesis by (simp add: after_def reset_lamb_states_def)
        qed
      next
        case (Smoothing_only x y)
        then show ?thesis using Inr \<open>first_param (param_groups ?opt2) = Some first\<close> Some
          by (simp add: load_state_dict_def bind_def after_def Let_def)
      qed
    qed
  qed
  then show ?thesis using Inr g2 by simp
qed

lemma load_state_dict_keeps_mask:
  assumes "k < length (param_groups opt)" and "exp_avg_mask (param_groups opt ! k) = Some v"
  shows "k < length (param_groups (after (load_state_dict opt ck)))
         \<and> exp_avg_mask (param_groups (after (load_state_dict opt ck)) ! k) = Some v"
proof (cases "base_load_state_dict opt ck")
  case (Inl a)
  then show ?thesis using assms by (simp add: load_state_dict_groups)
next
  case (Inr opt1)
  from base_load_Inr[OF Inr] have len: "length (param_groups opt1) = length (param_groups opt)"
    by simp
  show ?thesis using assms Inr len
    by (simp add: load_state_dict_groups restore_masks_length restore_masks_nth)
qed

lemma pack_groups_params:
  "concat (map params (pack_groups start gs)) = [start ..< start + length (concat (map params gs))]"
proof (induction gs arbitrary: start)
  case Nil
  then show ?case by simp
next
  case (Cons g gs)
  have "[start..<start + length (params g)] @ [start + length (params g)..<start + length (params g) + length (concat (map params gs))]
        = [start..<start + length (params g) + length (concat (map params gs))]"
    by (metis le_add1 upt_add_eq_append)
  then show ?case by (simp add: Cons.IH add.assoc)
qed

lemma load_entry_other: "q \<noteq> snd kp \<Longrightarrow> load_entry saved kp st q = st q"
  by (simp add: load_entry_def split: option.splits)

lemma load_entry_same:
  "load_entry saved (k, q) st q = (case saved k of None \<Rightarrow> st q | Some v \<Rightarrow> Some v)"
  by (simp add: load_entry_def split: option.splits)

lemma load_state_fold_other:
  "q \<notin> snd ` set pairs \<Longrightarrow> fold (load_entry saved) pairs st0 q = st0 q"
proof (induction pairs arbitrary: st0)
  case Nil
  then show ?case by simp
next
  case (Cons a pairs)
  then have "q \<noteq> snd a" and "q \<notin> snd ` set pairs" by auto
  then show ?case using Cons.IH by (simp add: load_entry_other)
qed

lemma load_state_fold:
  assumes "distinct (map snd pairs)" and "(k, q) \<in> set pairs"
  shows "fold (load_entry saved) pairs st0 q = (case saved k of None \<Rightarrow> st0 q | Some v \<Rightarrow> Some v)"
  using assms
proof (induction pairs arbitrary: st0)
  case Nil
  then show ?case by simp
next
  case (Cons a pairs)
  from Cons.prems have d: "distinct (map snd pairs)" and np: "snd a \<notin> snd ` set pairs" by auto
  show ?case
  proof (cases "(k, q) = a")
    case True
    then have "snd a = q" by auto
    then have "q \<notin> snd ` set pairs" using np by simp
    then have "fold (load_entry saved) pairs (load_entry saved a st0) q = load_entry saved a st0 q"
      by (rule load_state_fold_other)
    then show ?thesis using True load_entry_same[of saved k q st0] by auto
  next
    case False
    then have in': "(k, q) \<in> set pairs" using Cons.prems(2) by auto
    then have "q \<in> snd ` set pairs" by (metis image_eqI snd_conv)
    then have "q \<noteq> snd a" using np by metis
    then have "load_entry saved a st0 q = st0 q" by (rule load_entry_other)
    with Cons.IH[OF d in', of "load_entry saved a st0"] show ?thesis
      by (simp split: option.splits)
  qed
qed

lemma load_state_nth:
  assumes "distinct ps" and "length ks = length ps" and "i < length ps"
  shows "load_state saved (zip ks ps) (ps ! i) = saved (ks ! i)"
proof -
  have d: "distinct (map snd (zip ks ps))" using assms by simp
  have m: "(ks ! i, ps ! i) \<in> set (zip ks ps)" using assms by (auto simp: set_zip)
  from load_state_fold[OF d m, of saved Map.empty]
  show ?thesis unfolding load_state_def by (simp split: option.splits)
qed

lemma reset_entry_smoothing:
  "p = a \<or> map_option smoothing (st p) = Some (0, 1) \<Longrightarrow>
     map_option smoothing (reset_entry a st p) = Some (0, 1)"
  by (auto simp: reset_entry_def smoothing_def split: option.splits pentry.splits)

lemma reset_smoothing_in:
  "p \<in> set ps \<or> map_option smoothing (st p) = Some (0, 1) \<Longrightarrow>
     map_option smoothing (reset_smoothing ps st p) = Some (0, 1)"
  unfolding reset_smoothing_def
proof (induction ps arbitrary: st)
  case Nil
  then show ?case by simp
next
  case (Cons a ps)
  have "p \<in> set ps \<or> map_option smoothing (reset_entry a st p) = Some (0, 1)"
    using Cons.prems reset_entry_smoothing[of p a st] by auto
  then have "map_option smoothing (fold reset_entry ps (reset_entry a st) p) = Some (0, 1)"
    by (rule Cons.IH)
  then show ?case by simp
qed

lemma first_param_all:
  "first_param gs = Some p \<Longrightarrow> concat (map params gs) \<noteq> [] \<and> concat (map params gs) ! 0 = p"
  by (auto simp: first_param_def split: list.splits)

lemma first_param_cong:
  "map params gs = map params gs' \<Longrightarrow> first_param gs = first_param gs'"
  by (cases gs; cases gs') (auto simp: first_param_def)

lemma map2_params:
  "length live = length loaded \<Longrightarrow>
     map params (map2 (\<lambda>g new_group. new_group\<lparr>params := params g\<rparr>) live loaded) = map params live"
  by (induction live loaded rule: list_induct2) simp_all

lemma restore_masks_params:
  "length live = length loaded \<Longrightarrow> map params (restore_masks live loaded) = map params loaded"
  unfolding restore_masks_def
  by (induction live loaded rule: list_induct2) (simp_all split: option.splits)

lemma pack_groups_lengths:
  "map (\<lambda>g. length (params g)) (pack_groups start gs) = map (\<lambda>g. length (params g)) gs"
  by (induction gs arbitrary: start) simp_all

lemma lengths_concat:
  "map (\<lambda>g. length (params g)) A = map (\<lambda>g. length (params g)) B \<Longrightarrow>
     length (concat (map params A)) = length (concat (map params B))"
proof -
  assume "map (\<lambda>g. length (params g)) A = map (\<lambda>g. length (params g)) B"
  then have "map length (map params A) = map length (map params B)" by (simp add: comp_def)
  then show ?thesis by (simp only: length_concat)
qed

text \<open>What the load makes of the state and the groups, before the two branches.\<close>

lemma load_roundtrip_prelude:
  assumes ok: "base_load_state_dict live (state_dict saved) = Inr opt1"
    and d: "distinct (all_params live)"
    and q: "first_param (param_groups saved) = Some q" and s: "state saved q = Some (Full s)"
  shows "\<exists>first s1. first_param (param_groups (reset_fused (param_groups live) opt1)) = Some first
           \<and> state (reset_fused (param_groups live) opt1) first = Some (Full s1)
           \<and> step_count s1 = step_count s
           \<and> all_params (reset_fused (param_groups live) opt1) = all_params live"
proof -
  let ?ck = "state_dict saved"
  let ?opt2 = "reset_fused (param_groups live) opt1"
  from base_load_Inr[OF ok] have
    len: "length (ck_param_groups ?ck) = length (param_groups live)"
    and lens: "map (\<lambda>g. length (params g)) (param_groups live)
                 = map (\<lambda>g. length (params g)) (ck_param_groups ?ck)"
    and g1: "param_groups opt1 = map2 (\<lambda>g new_group. new_group\<lparr>params := params g\<rparr>)
                                       (param_groups live) (ck_param_groups ?ck)"
    and st1: "state opt1 = load_state (ck_state ?ck)
                               (zip (concat (map params (ck_param_groups ?ck))) (all_params live))"
    by simp_all
  have ckg: "ck_param_groups ?ck = pack_groups 0 (param_groups saved)"
    by (simp add: state_dict_def base_state_dict_def)
  have p1: "map params (param_groups opt1) = map params (param_groups live)"
    unfolding g1 by (rule map2_params) (rule len[symmetric])
  have l1: "length (param_groups opt1) = length (param_groups live)"
    using p1 by (metis length_map)
  have p2: "map params (param_groups ?opt2) = map params (param_groups live)"
  proof -
    have "map params (restore_masks (param_groups live) (param_groups opt1)) = map params (param_groups opt1)"
      by (rule restore_masks_params) (rule l1[symmetric])
    then show ?thesis using p1 by (simp add: reset_fused_def)
  qed
  have all2: "all_params ?opt2 = all_params live" using p2 by (simp add: all_params_def)
  have ks: "concat (map params (ck_param_groups ?ck)) = [0 ..< length (all_params saved)]"
    unfolding ckg by (simp add: pack_groups_params all_params_def)
  have "map (\<lambda>g. length (params g)) (param_groups live)
          = map (\<lambda>g. length (params g)) (param_groups saved)"
    using lens unfolding ckg by (simp add: pack_groups_lengths)
  then have lenall: "length (all_params live) = length (all_params saved)"
    unfolding all_params_def by (rule lengths_concat)
  from first_param_all[OF q] have ne: "all_params saved \<noteq> []" and q0: "all_params saved ! 0 = q"
    by (simp_all add: all_params_def)
  then have pos: "0 < length (all_params live)" using lenall by simp
  have st2: "state ?opt2 = state opt1" by (simp add: reset_fused_def)
  have "state ?opt2 (all_params live ! 0) = ck_state ?ck ([0 ..< length (all_params saved)] ! 0)"
    unfolding st2 st1 ks using d lenall pos by (intro load_state_nth) simp_all
  also have "\<dots> = ck_state ?ck 0" using ne by simp
  also have "\<dots> = Some (Full (s\<lparr>exp_avg := Own (deref (exp_avg_flat saved) (exp_avg s))\<rparr>))"
    using ne q0 s by (simp add: state_dict_def base_state_dict_def nth_opt_def save_entry_def)
  finally have e: "state ?opt2 (all_params live ! 0)
       = Some (Full (s\<lparr>exp_avg := Own (deref (exp_avg_flat saved) (exp_avg s))\<rparr>))" .
  have fl: "first_param (param_groups ?opt2) = first_param (param_groups live)"
    using p2 by (rule first_param_cong)
  have "first_param (param_groups live) \<noteq> None"
  proof -
    from q obtain g gs p ps where gs: "param_groups saved = g # gs" and ps: "params g = p # ps"
      by (auto simp: first_param_def split: list.splits)
    from \<open>map (\<lambda>g. length (params g)) (param_groups live) = map (\<lambda>g. length (params g)) (param_groups saved)\<close> gs
    obtain g' gs' where gs': "param_groups live = g' # gs'" and "length (params g') = length (params g)"
      by (cases "param_groups live") auto
    then have "params g' \<noteq> []" using ps by auto
    then show ?thesis using gs' by (auto simp: first_param_def split: list.splits)
  qed
  then obtain first where f: "first_param (param_groups live) = Some first" by auto
  from first_param_all[OF f] have "all_params live ! 0 = first" by (simp add: all_params_def)
  then show ?thesis using e f fl all2 by auto
qed

lemma load_lamb_states_Inr:
  "load_lamb_states ck opt = Inr opt' \<Longrightarrow>
     ck_worker_errors ck = Some (worker_errors opt') \<and> ck_server_errors ck = Some (server_errors opt')
     \<and> ck_scaling_coeffs ck = Some (scaling_coeffs opt') \<and> lamb_freeze_key opt' = lamb_freeze_key opt"
  by (auto simp: load_lamb_states_def split: option.splits if_splits)

section \<open>Facts about the parameter loop\<close>

lemma param_frame_refl: "param_frame opt opt"
  by (simp add: param_frame_def)

lemma main_frame_refl: "main_frame opt opt"
  by (simp add: main_frame_def)

lemma param_frame_main: "param_frame opt opt' \<Longrightarrow> main_frame opt opt'"
  by (simp add: param_frame_def main_frame_def)

lemma main_frame_trans: "main_frame a b \<Longrightarrow> main_frame b c \<Longrightarrow> main_frame a c"
  by (simp add: main_frame_def)

lemma main_frame_initialize: "main_frame a b \<Longrightarrow> initialize b = initialize a"
  by (simp add: main_frame_def buffers_def)

lemma main_frame_p_grad: "main_frame a b \<Longrightarrow> p_grad b = p_grad a"
  by (simp add: main_frame_def config_def)

lemma loop_rel_refl: "loop_rel D opt opt"
  by (simp add: loop_rel_def main_frame_refl)

lemma loop_rel_mono: "loop_rel D a b \<Longrightarrow> D \<subseteq> D' \<Longrightarrow> loop_rel D' a b"
  unfolding loop_rel_def by blast

lemma loop_rel_trans:
  assumes ab: "loop_rel D a b" and bc: "loop_rel D b c"
  shows "loop_rel D a c"
proof -
  have i: "initialize b = initialize a" using ab by (simp add: loop_rel_def main_frame_initialize)
  have 1: "main_frame a c" using ab bc main_frame_trans unfolding loop_rel_def by blast
  have 2: "\<forall>q. q \<notin> D \<longrightarrow> state c q = state a q \<and> p_data c q = p_data a q"
    using ab bc unfolding loop_rel_def by simp
  have 3: "\<not> initialize a \<longrightarrow> p_data c = p_data a" using ab bc i unfolding loop_rel_def by simp
  have 4: "initialize a \<longrightarrow> lamb_freeze_key c = lamb_freeze_key a"
    using ab bc i unfolding loop_rel_def by simp
  have 5: "lamb_freeze_key a \<longrightarrow> lamb_freeze_key c" using ab bc unfolding loop_rel_def by simp
  have 6: "length (exp_avg_flat c) = length (exp_avg_flat a)"
    using ab bc unfolding loop_rel_def by simp
  have 7: "\<forall>q e. state a q = Some e \<longrightarrow>
            (\<exists>e'. state c q = Some e' \<and> snd (smoothing e') = snd (smoothing e)
                  \<and> is_full (Some e') = is_full (Some e))"
  proof (intro allI impI)
    fix q e assume "state a q = Some e"
    with ab obtain e1 where e1: "state b q = Some e1" "snd (smoothing e1) = snd (smoothing e)"
      "is_full (Some e1) = is_full (Some e)" unfolding loop_rel_def by blast
    with bc obtain e2 where "state c q = Some e2" "snd (smoothing e2) = snd (smoothing e1)"
      "is_full (Some e2) = is_full (Some e1)" unfolding loop_rel_def by blast
    with e1 show "\<exists>e'. state c q = Some e' \<and> snd (smoothing e') = snd (smoothing e)
                  \<and> is_full (Some e') = is_full (Some e)" by simp
  qed
  have 8: "\<forall>q e'. state a q = None \<longrightarrow> state c q = Some e' \<longrightarrow> snd (smoothing e') = 1"
  proof (intro allI impI)
    fix q e' assume n: "state a q = None" and c: "state c q = Some e'"
    show "snd (smoothing e') = 1"
    proof (cases "state b q")
      case None
      with bc c show ?thesis unfolding loop_rel_def by blast
    next
      case (Some e1)
      with ab n have "snd (smoothing e1) = 1" unfolding loop_rel_def by blast
      moreover from bc Some obtain e2 where "state c q = Some e2" "snd (smoothing e2) = snd (smoothing e1)"
        unfolding loop_rel_def by blast
      ultimately show ?thesis using c by simp
    qed
  qed
  show ?thesis unfolding loop_rel_def using 1 2 3 4 5 6 7 8 by blast
qed

lemma write_flat_length: "length (write_flat r v fl) = length fl"
  by (simp add: write_flat_def split: tref.splits list.splits)

lemma warmup_param_frame: "param_frame opt (warmup_param grp p s g opt)"
  by (simp add: param_frame_def config_def buffers_def warmup_param_def Let_def)

lemma warmup_param_other:
  "q \<noteq> p \<Longrightarrow> state (warmup_param grp p s g opt) q = state opt q
               \<and> p_data (warmup_param grp p s g opt) q = p_data opt q"
  by (simp add: warmup_param_def Let_def)

lemma warmup_param_flat:
  "length (exp_avg_flat (warmup_param grp p s g opt)) = length (exp_avg_flat opt)"
  by (simp add: warmup_param_def Let_def write_flat_length)

lemma warmup_param_same:
  "\<exists>s'. state (warmup_param grp p s g opt) p = Some (Full s')
        \<and> last_factor s' = last_factor s \<and> step_count s' = step_count s"
  by (simp add: warmup_param_def Let_def)

lemma compress_param_frame: "param_frame opt (after (compress_param i j grp p s g opt))"
  by (simp add: param_frame_def config_def buffers_def compress_param_def Let_def after_def
      split: option.splits)

lemma compress_param_other:
  "q \<noteq> p \<Longrightarrow> state (after (compress_param i j grp p s g opt)) q = state opt q"
  by (simp add: compress_param_def Let_def after_def split: option.splits)

lemma compress_param_data:
  "p_data (after (compress_param i j grp p s g opt)) = p_data opt"
  by (simp add: compress_param_def Let_def after_def split: option.splits)

lemma compress_param_flat:
  "length (exp_avg_flat (after (compress_param i j grp p s g opt))) = length (exp_avg_flat opt)"
  by (simp add: compress_param_def Let_def after_def write_flat_length split: option.splits)

lemma compress_param_same:
  "\<exists>s'. state (after (compress_param i j grp p s g opt)) p = Some (Full s')
        \<and> last_factor s' = last_factor s \<and> step_count s' = step_count s"
  by (simp add: compress_param_def Let_def after_def split: option.splits)

lemma process_param_rel: "loop_rel {p} opt (after_loop (process_param grp i j p g opt))"
proof -
  define entry where "entry = (case state opt p of None \<Rightarrow> Full (fresh_state opt p) | Some e \<Rightarrow> e)"
  define opt1 where "opt1 = opt\<lparr>state := (state opt)(p \<mapsto> entry)\<rparr>"
  define opt2 where "opt2 = (if \<not> initialize opt1 then opt1\<lparr>lamb_freeze_key := True\<rparr> else opt1)"
  have pp: "process_param grp i j p g opt =
     (case entry of
           Smoothing_only _ _ \<Rightarrow> Inl (KeyError, opt2)
         | Full s \<Rightarrow>
             (let s1 = s\<lparr>step_count := step_count s + 1\<rparr>
              in if \<not> lamb_freeze_key opt2 then Inr (warmup_param grp p s1 g opt2, Some p)
                 else (case compress_param i j grp p s1 g opt2 of
                         Inl e \<Rightarrow> Inl e
                       | Inr opt3 \<Rightarrow> Inr (opt3, Some p))))"
    unfolding process_param_def entry_def opt1_def opt2_def Let_def by simp
  have lfe: "(\<forall>e. state opt p = Some e \<longrightarrow> entry = e) \<and> (state opt p = None \<longrightarrow> snd (smoothing entry) = 1 \<and> is_full (Some entry))"
    by (auto simp: entry_def smoothing_def fresh_state_def is_full_def)
  have r2: "main_frame opt opt2 \<and> (\<forall>q. q \<noteq> p \<longrightarrow> state opt2 q = state opt q)
            \<and> p_data opt2 = p_data opt \<and> state opt2 p = Some entry
            \<and> exp_avg_flat opt2 = exp_avg_flat opt
            \<and> initialize opt2 = initialize opt
            \<and> (initialize opt \<longrightarrow> lamb_freeze_key opt2 = lamb_freeze_key opt)
            \<and> (lamb_freeze_key opt \<longrightarrow> lamb_freeze_key opt2)
            \<and> (\<not> initialize opt \<longrightarrow> lamb_freeze_key opt2)"
    by (simp add: opt2_def opt1_def main_frame_def config_def buffers_def)
  have step: "loop_rel {p} opt o3"
    if f: "main_frame opt2 o3" and k: "lamb_freeze_key o3 = lamb_freeze_key opt2"
      and oth: "\<forall>q. q \<noteq> p \<longrightarrow> state o3 q = state opt2 q \<and> p_data o3 q = p_data opt2 q"
      and dat: "\<not> initialize opt \<longrightarrow> p_data o3 = p_data opt2"
      and fl: "length (exp_avg_flat o3) = length (exp_avg_flat opt2)"
      and same: "\<exists>e'. state o3 p = Some e' \<and> snd (smoothing e') = snd (smoothing entry)
                    \<and> is_full (Some e') = is_full (Some entry)"
    for o3
  proof -
    have 1: "main_frame opt o3" using r2 f main_frame_trans by blast
    have 2: "\<forall>q. q \<notin> {p} \<longrightarrow> state o3 q = state opt q \<and> p_data o3 q = p_data opt q"
      using oth r2 by simp
    have 3: "\<not> initialize opt \<longrightarrow> p_data o3 = p_data opt" using dat r2 by simp
    have 4: "initialize opt \<longrightarrow> lamb_freeze_key o3 = lamb_freeze_key opt" using k r2 by simp
    have 5: "lamb_freeze_key opt \<longrightarrow> lamb_freeze_key o3" using k r2 by simp
    have 6: "length (exp_avg_flat o3) = length (exp_avg_flat opt)" using fl r2 by simp
    have 7: "\<forall>q e. state opt q = Some e \<longrightarrow>
            (\<exists>e'. state o3 q = Some e' \<and> snd (smoothing e') = snd (smoothing e)
                  \<and> is_full (Some e') = is_full (Some e))"
    proof (intro allI impI)
      fix q e assume a: "state opt q = Some e"
      show "\<exists>e'. state o3 q = Some e' \<and> snd (smoothing e') = snd (smoothing e)
                  \<and> is_full (Some e') = is_full (Some e)"
      proof (cases "q = p")
        case True
        then have "entry = e" using a lfe by simp
        then show ?thesis using same True by simp
      next
        case False
        then show ?thesis using oth r2 a by simp
      qed
    qed
    have 8: "\<forall>q e'. state opt q = None \<longrightarrow> state o3 q = Some e' \<longrightarrow> snd (smoothing e') = 1"
    proof (intro allI impI)
      fix q e' assume a: "state opt q = None" and b: "state o3 q = Some e'"
      show "snd (smoothing e') = 1"
      proof (cases "q = p")
        case True
        then show ?thesis using a b lfe same by auto
      next
        case False
        then show ?thesis using oth r2 a b by simp
      qed
    qed
    show ?thesis unfolding loop_rel_def using 1 2 3 4 5 6 7 8 by blast
  qed
  have base: "loop_rel {p} opt opt2"
    by (rule step) (use r2 in \<open>simp_all add: main_frame_refl\<close>)
  show ?thesis
  proof (cases entry)
    case (Smoothing_only a b)
    then show ?thesis using base by (simp add: pp after_loop_def)
  next
    case (Full s)
    define s1 where "s1 = s\<lparr>step_count := step_count s + 1\<rparr>"
    have sm: "snd (smoothing entry) = last_factor s1" "is_full (Some entry)"
      using Full by (simp_all add: smoothing_def s1_def is_full_def)
    show ?thesis
    proof (cases "lamb_freeze_key opt2")
      case False
      then have ini: "initialize opt" using r2 by auto
      let ?w = "warmup_param grp p s1 g opt2"
      have res: "after_loop (process_param grp i j p g opt) = ?w"
        using Full False by (simp add: pp after_loop_def s1_def)
      from warmup_param_same[of grp p s1 g opt2] obtain s' where
        s': "state ?w p = Some (Full s')" "last_factor s' = last_factor s1" by blast
      have "loop_rel {p} opt ?w"
      proof (rule step)
        show "main_frame opt2 ?w" using warmup_param_frame param_frame_main by blast
        show "lamb_freeze_key ?w = lamb_freeze_key opt2"
          using warmup_param_frame[of opt2 grp p s1 g] by (simp add: param_frame_def)
        show "\<forall>q. q \<noteq> p \<longrightarrow> state ?w q = state opt2 q \<and> p_data ?w q = p_data opt2 q"
          using warmup_param_other by blast
        show "\<not> initialize opt \<longrightarrow> p_data ?w = p_data opt2" using ini by simp
        show "length (exp_avg_flat ?w) = length (exp_avg_flat opt2)" by (rule warmup_param_flat)
        show "\<exists>e'. state ?w p = Some e' \<and> snd (smoothing e') = snd (smoothing entry)
                    \<and> is_full (Some e') = is_full (Some entry)"
          using s' sm by (simp add: smoothing_def is_full_def)
      qed
      then show ?thesis using res by simp
    next
      case True
      let ?c = "after (compress_param i j grp p s1 g opt2)"
      have res: "after_loop (process_param grp i j p g opt) = ?c"
        using Full True
        by (cases "compress_param i j grp p s1 g opt2")
           (auto simp: pp after_loop_def after_def s1_def)
      from compress_param_same[of i j grp p s1 g opt2] obtain s' where
        s': "state ?c p = Some (Full s')" "last_factor s' = last_factor s1" by blast
      have "loop_rel {p} opt ?c"
      proof (rule step)
        show "main_frame opt2 ?c" using compress_param_frame param_frame_main by blast
        show "lamb_freeze_key ?c = lamb_freeze_key opt2"
          using compress_param_frame[of opt2 i j grp p s1 g] by (simp add: param_frame_def)
        show "\<forall>q. q \<noteq> p \<longrightarrow> state ?c q = state opt2 q \<and> p_data ?c q = p_data opt2 q"
          using compress_param_other compress_param_data by simp
        show "\<not> initialize opt \<longrightarrow> p_data ?c = p_data opt2" by (simp add: compress_param_data)
        show "length (exp_avg_flat ?c) = length (exp_avg_flat opt2)" by (rule compress_param_flat)
        show "\<exists>e'. state ?c p = Some e' \<and> snd (smoothing e') = snd (smoothing entry)
                    \<and> is_full (Some e') = is_full (Some entry)"
          using s' sm by (simp add: smoothing_def is_full_def)
      qed
      then show ?thesis using res by simp
    qed
  qed
qed

lemma dense_params_append: "dense_params (xs @ ys) = dense_params xs \<union> dense_params ys"
  by (auto simp: dense_params_def)

lemma after_loop_simps:
  "after_loop (Inl (e, opt)) = opt" "after_loop (Inr (opt, b)) = opt"
  by (simp_all add: after_loop_def)

lemma step_param_rel:
  "loop_rel (dense_params [(p, effective_grad opt p grad)]) opt
     (after_loop (step_param grp i j p grad (opt, b)))"
proof (cases "effective_grad opt p grad")
  case None
  then show ?thesis by (simp add: step_param_def after_loop_def loop_rel_refl)
next
  case (Some gr)
  show ?thesis
  proof (cases gr)
    case (Dense g)
    have "dense_params [(p, Some (Dense g))] = {p}" by (auto simp: dense_params_def)
    then show ?thesis using Some Dense process_param_rel[of p opt grp i j g]
      by (simp add: step_param_def)
  next
    case (Sparse t)
    then show ?thesis using Some by (simp add: step_param_def after_loop_def loop_rel_refl)
  qed
qed

lemma effective_grad_frame:
  "p_grad o1 = p_grad opt \<Longrightarrow> effective_grad o1 = effective_grad opt"
  by (intro ext) (simp add: effective_grad_def split: option.splits)

lemma step_params_rel:
  "loop_rel (dense_params (map (\<lambda>(p, g). (p, effective_grad opt p g)) (zip ps gs))) opt
     (after_loop (step_params grp i j ps gs (opt, b)))"
proof (induction ps arbitrary: gs j opt b)
  case Nil
  then show ?case by (simp add: after_loop_def loop_rel_refl)
next
  case (Cons p ps)
  show ?case
  proof (cases gs)
    case Nil
    then show ?thesis by (simp add: after_loop_def loop_rel_refl)
  next
    case gs: (Cons g gs')
    let ?D1 = "dense_params [(p, effective_grad opt p g)]"
    let ?D2 = "dense_params (map (\<lambda>(p, g). (p, effective_grad opt p g)) (zip ps gs'))"
    have D: "dense_params (map (\<lambda>(p, g). (p, effective_grad opt p g)) (zip (p # ps) gs)) = ?D1 \<union> ?D2"
      unfolding gs
      using dense_params_append[of "[(p, effective_grad opt p g)]"
              "map (\<lambda>(p, g). (p, effective_grad opt p g)) (zip ps gs')"] by simp
    have r1: "loop_rel ?D1 opt (after_loop (step_param grp i j p g (opt, b)))"
      by (rule step_param_rel)
    show ?thesis
    proof (cases "step_param grp i j p g (opt, b)")
      case (Inl e)
      then have "after_loop (step_params grp i j (p # ps) gs (opt, b))
                   = after_loop (step_param grp i j p g (opt, b))"
        using gs by (simp add: after_loop_def)
      then show ?thesis unfolding D using loop_rel_mono[OF r1 Un_upper1] by simp
    next
      case (Inr ol1)
      obtain o1 b1 where ol1: "ol1 = (o1, b1)" by (cases ol1)
      have a1: "loop_rel ?D1 opt o1" using r1 Inr ol1 by (simp add: after_loop_def)
      then have pg: "p_grad o1 = p_grad opt" by (simp add: loop_rel_def main_frame_p_grad)
      then have "effective_grad o1 = effective_grad opt" by (rule effective_grad_frame)
      then have eff: "(\<lambda>(p, g). (p, effective_grad o1 p g)) = (\<lambda>(p, g). (p, effective_grad opt p g))"
        by simp
      have "loop_rel ?D2 o1 (after_loop (step_params grp i (Suc j) ps gs' (o1, b1)))"
        using Cons.IH[where opt=o1 and gs=gs' and j="Suc j" and b=b1] unfolding eff by simp
      moreover have "after_loop (step_params grp i j (p # ps) gs (opt, b))
                   = after_loop (step_params grp i (Suc j) ps gs' (o1, b1))"
        using gs Inr ol1 by simp
      ultimately have a2: "loop_rel ?D2 o1 (after_loop (step_params grp i j (p # ps) gs (opt, b)))"
        by simp
      have "loop_rel (?D1 \<union> ?D2) opt o1" by (rule loop_rel_mono[OF a1 Un_upper1])
      moreover have "loop_rel (?D1 \<union> ?D2) o1 (after_loop (step_params grp i j (p # ps) gs (opt, b)))"
        by (rule loop_rel_mono[OF a2 Un_upper2])
      ultimately show ?thesis unfolding D by (rule loop_rel_trans)
    qed
  qed
qed

lemma group_positions_frame:
  assumes "p_grad o1 = p_grad opt"
  shows "group_positions o1 grp gs = group_positions opt grp gs"
proof -
  have "effective_grad o1 = effective_grad opt" using assms by (rule effective_grad_frame)
  then show ?thesis by (simp add: group_positions_def)
qed

lemma step_groups_rel:
  "loop_rel (dense_params (concat (map (\<lambda>(grp, gs). group_positions opt grp gs) (zip groups gss))))
     opt (after_loop (step_groups i groups gss (opt, b)))"
proof (induction groups arbitrary: gss i opt b)
  case Nil
  then show ?case by (simp add: after_loop_def loop_rel_refl)
next
  case (Cons grp groups)
  show ?case
  proof (cases gss)
    case Nil
    then show ?thesis by (simp add: after_loop_def loop_rel_refl)
  next
    case gss: (Cons gs gss')
    define gtg where "gtg = (case gs of None \<Rightarrow> replicate (length (params grp)) None | Some l \<Rightarrow> l)"
    let ?D1 = "dense_params (group_positions opt grp gs)"
    let ?D2 = "dense_params (concat (map (\<lambda>(grp, gs). group_positions opt grp gs) (zip groups gss')))"
    have D: "dense_params (concat (map (\<lambda>(grp, gs). group_positions opt grp gs) (zip (grp # groups) gss)))
               = ?D1 \<union> ?D2"
      unfolding gss by (simp add: dense_params_append)
    have r1: "loop_rel ?D1 opt (after_loop (step_params grp i 0 (params grp) gtg (opt, b)))"
      using step_params_rel[of opt "params grp" gtg grp i 0 b]
      by (simp add: group_positions_def gtg_def)
    have unf: "step_groups i (grp # groups) gss (opt, b) =
                 (case step_params grp i 0 (params grp) gtg (opt, b) of
                    Inl e \<Rightarrow> Inl e
                  | Inr ol1 \<Rightarrow> step_groups (Suc i) groups gss' ol1)"
      unfolding gss gtg_def by (simp add: Let_def)
    show ?thesis
    proof (cases "step_params grp i 0 (params grp) gtg (opt, b)")
      case (Inl e)
      then have "after_loop (step_groups i (grp # groups) gss (opt, b))
                   = after_loop (step_params grp i 0 (params grp) gtg (opt, b))"
        using unf by (simp add: after_loop_def)
      then show ?thesis unfolding D using loop_rel_mono[OF r1 Un_upper1] by simp
    next
      case (Inr ol1)
      obtain o1 b1 where ol1: "ol1 = (o1, b1)" by (cases ol1)
      have a1: "loop_rel ?D1 opt o1" using r1 Inr ol1 by (simp add: after_loop_def)
      then have pg: "p_grad o1 = p_grad opt" by (simp add: loop_rel_def main_frame_p_grad)
      have "group_positions o1 = group_positions opt"
        by (intro ext) (rule group_positions_frame[OF pg])
      then have eff: "(\<lambda>(grp, gs). group_positions o1 grp gs) = (\<lambda>(grp, gs). group_positions opt grp gs)"
        by simp
      have "loop_rel ?D2 o1 (after_loop (step_groups (Suc i) groups gss' (o1, b1)))"
        using Cons.IH[where opt=o1 and gss=gss' and i="Suc i" and b=b1] unfolding eff by simp
      moreover have "after_loop (step_groups i (grp # groups) gss (opt, b))
                   = after_loop (step_groups (Suc i) groups gss' (o1, b1))"
        using unf Inr ol1 by simp
      ultimately have a2: "loop_rel ?D2 o1 (after_loop (step_groups i (grp # groups) gss (opt, b)))"
        by simp
      have "loop_rel (?D1 \<union> ?D2) opt o1" by (rule loop_rel_mono[OF a1 Un_upper1])
      moreover have "loop_rel (?D1 \<union> ?D2) o1 (after_loop (step_groups i (grp # groups) gss (opt, b)))"
        by (rule loop_rel_mono[OF a2 Un_upper2])
      ultimately show ?thesis unfolding D by (rule loop_rel_trans)
    qed
  qed
qed

lemma loop_rel_full:
  "loop_rel D a b \<Longrightarrow> is_full (state a q) \<Longrightarrow> is_full (state b q)"
proof -
  assume r: "loop_rel D a b" and f: "is_full (state a q)"
  from f obtain s where "state a q = Some (Full s)" using is_fullE by blast
  with r obtain e' where "state b q = Some e'" "is_full (Some e') = is_full (Some (Full s))"
    unfolding loop_rel_def by blast
  then show ?thesis by (simp add: is_full_def)
qed

lemma process_param_bound:
  assumes "process_param grp i j p g opt = Inr (o', b')"
  shows "b' = Some p \<and> is_full (state o' p)"
proof -
  define entry where "entry = (case state opt p of None \<Rightarrow> Full (fresh_state opt p) | Some e \<Rightarrow> e)"
  define opt1 where "opt1 = opt\<lparr>state := (state opt)(p \<mapsto> entry)\<rparr>"
  define opt2 where "opt2 = (if \<not> initialize opt1 then opt1\<lparr>lamb_freeze_key := True\<rparr> else opt1)"
  have pp: "process_param grp i j p g opt =
     (case entry of
           Smoothing_only _ _ \<Rightarrow> Inl (KeyError, opt2)
         | Full s \<Rightarrow>
             (let s1 = s\<lparr>step_count := step_count s + 1\<rparr>
              in if \<not> lamb_freeze_key opt2 then Inr (warmup_param grp p s1 g opt2, Some p)
                 else (case compress_param i j grp p s1 g opt2 of
                         Inl e \<Rightarrow> Inl e
                       | Inr opt3 \<Rightarrow> Inr (opt3, Some p))))"
    unfolding process_param_def entry_def opt1_def opt2_def Let_def by simp
  show ?thesis
  proof (cases entry)
    case (Smoothing_only a b)
    then show ?thesis using assms pp by simp
  next
    case (Full s)
    define s1 where "s1 = s\<lparr>step_count := step_count s + 1\<rparr>"
    show ?thesis
    proof (cases "lamb_freeze_key opt2")
      case False
      then have "o' = warmup_param grp p s1 g opt2" "b' = Some p"
        using assms pp Full by (simp_all add: s1_def)
      then show ?thesis using warmup_param_same[of grp p s1 g opt2] by (auto simp: is_full_def)
    next
      case True
      then have c: "compress_param i j grp p s1 g opt2 = Inr o'" and b: "b' = Some p"
        using assms pp Full by (auto simp: s1_def split: sum.splits)
      from compress_param_same[of i j grp p s1 g opt2] c have "is_full (state o' p)"
        by (auto simp: after_def is_full_def)
      then show ?thesis using b by simp
    qed
  qed
qed

lemma step_param_bound:
  assumes "step_param grp i j p grad (opt, b) = Inr (o', b')"
  shows "b' = b \<or> (b' = Some p \<and> is_full (state o' p))"
proof (cases "effective_grad opt p grad")
  case None
  then show ?thesis using assms by (simp add: step_param_def)
next
  case (Some gr)
  show ?thesis
  proof (cases gr)
    case (Dense g)
    then have "process_param grp i j p g opt = Inr (o', b')"
      using assms Some by (simp add: step_param_def)
    then show ?thesis using process_param_bound by blast
  next
    case (Sparse t)
    then show ?thesis using assms Some by (simp add: step_param_def)
  qed
qed

lemma step_params_bound:
  "step_params grp i j ps gs (opt, b) = Inr (o', b') \<Longrightarrow>
     b' = b \<or> (\<exists>p. b' = Some p \<and> p \<in> set ps \<and> is_full (state o' p))"
proof (induction ps arbitrary: gs j opt b)
  case Nil
  then show ?case by simp
next
  case (Cons p ps)
  show ?case
  proof (cases gs)
    case Nil
    then show ?thesis using Cons.prems by simp
  next
    case gs: (Cons g gs')
    show ?thesis
    proof (cases "step_param grp i j p g (opt, b)")
      case (Inl e)
      then show ?thesis using Cons.prems gs by simp
    next
      case (Inr ol1)
      obtain o1 b1 where ol1: "ol1 = (o1, b1)" by (cases ol1)
      have rest: "step_params grp i (Suc j) ps gs' (o1, b1) = Inr (o', b')"
        using Cons.prems gs Inr ol1 by simp
      from Cons.IH[OF rest]
      have ih: "b' = b1 \<or> (\<exists>q. b' = Some q \<and> q \<in> set ps \<and> is_full (state o' q))" .
      have rel: "loop_rel (dense_params (map (\<lambda>(p, g). (p, effective_grad o1 p g)) (zip ps gs'))) o1 o'"
        using step_params_rel[of o1 ps gs' grp i "Suc j" b1] rest by (simp add: after_loop_def)
      from step_param_bound[of grp i j p g opt b o1 b1] Inr ol1
      have first: "b1 = b \<or> (b1 = Some p \<and> is_full (state o1 p))" by simp
      show ?thesis
      proof (cases "b' = b1")
        case True
        from first show ?thesis
        proof
          assume "b1 = b" then show ?thesis using True by simp
        next
          assume a: "b1 = Some p \<and> is_full (state o1 p)"
          then have "is_full (state o' p)" using rel loop_rel_full by blast
          then show ?thesis using a True by auto
        qed
      next
        case False
        then show ?thesis using ih by auto
      qed
    qed
  qed
qed

lemma step_groups_bound:
  "step_groups i groups gss (opt, b) = Inr (o', b') \<Longrightarrow>
     b' = b \<or> (\<exists>p. b' = Some p \<and> p \<in> set (concat (map params groups)) \<and> is_full (state o' p))"
proof (induction groups arbitrary: gss i opt b)
  case Nil
  then show ?case by simp
next
  case (Cons grp groups)
  show ?case
  proof (cases gss)
    case Nil
    then show ?thesis using Cons.prems by simp
  next
    case gss: (Cons gs gss')
    define gtg where "gtg = (case gs of None \<Rightarrow> replicate (length (params grp)) None | Some l \<Rightarrow> l)"
    have unf: "step_groups i (grp # groups) gss (opt, b) =
                 (case step_params grp i 0 (params grp) gtg (opt, b) of
                    Inl e \<Rightarrow> Inl e
                  | Inr ol1 \<Rightarrow> step_groups (Suc i) groups gss' ol1)"
      unfolding gss gtg_def by (simp add: Let_def)
    show ?thesis
    proof (cases "step_params grp i 0 (params grp) gtg (opt, b)")
      case (Inl e)
      then show ?thesis using Cons.prems unf by simp
    next
      case (Inr ol1)
      obtain o1 b1 where ol1: "ol1 = (o1, b1)" by (cases ol1)
      have rest: "step_groups (Suc i) groups gss' (o1, b1) = Inr (o', b')"
        using Cons.prems unf Inr ol1 by simp
      from Cons.IH[OF rest]
      have ih: "b' = b1 \<or> (\<exists>q. b' = Some q \<and> q \<in> set (concat (map params groups)) \<and> is_full (state o' q))" .
      have rel: "loop_rel (dense_params (concat (map (\<lambda>(grp, gs). group_positions o1 grp gs) (zip groups gss')))) o1 o'"
        using step_groups_rel[of o1 groups gss' "Suc i" b1] rest by (simp add: after_loop_def)
      from step_params_bound[of grp i 0 "params grp" gtg opt b o1 b1] Inr ol1
      have first: "b1 = b \<or> (\<exists>q. b1 = Some q \<and> q \<in> set (params grp) \<and> is_full (state o1 q))" by simp
      show ?thesis
      proof (cases "b' = b1")
        case True
        from first show ?thesis
        proof
          assume "b1 = b" then show ?thesis using True by simp
        next
          assume "\<exists>q. b1 = Some q \<and> q \<in> set (params grp) \<and> is_full (state o1 q)"
          then obtain q where q: "b1 = Some q" "q \<in> set (params grp)" "is_full (state o1 q)" by blast
          then have "is_full (state o' q)" using rel loop_rel_full by blast
          then show ?thesis using q True by auto
        qed
      next
        case False
        then show ?thesis using ih by auto
      qed
    qed
  qed
qed

lemma step_params_sparse:
  "(q, Some (Sparse t)) \<in> set (map (\<lambda>(p, g). (p, effective_grad opt p g)) (zip ps gs)) \<Longrightarrow>
     \<exists>e opt'. step_params grp i j ps gs (opt, b) = Inl (e, opt')"
proof (induction ps arbitrary: gs j opt b)
  case Nil
  then show ?case by simp
next
  case (Cons p ps)
  show ?case
  proof (cases gs)
    case Nil
    then show ?thesis using Cons.prems by simp
  next
    case gs: (Cons g gs')
    show ?thesis
    proof (cases "step_param grp i j p g (opt, b)")
      case (Inl e)
      then show ?thesis using gs by (cases e) simp
    next
      case (Inr ol1)
      obtain o1 b1 where ol1: "ol1 = (o1, b1)" by (cases ol1)
      have "effective_grad opt p g \<noteq> Some (Sparse t)"
        using Inr by (auto simp: step_param_def)
      then have in': "(q, Some (Sparse t)) \<in> set (map (\<lambda>(p, g). (p, effective_grad opt p g)) (zip ps gs'))"
        using Cons.prems gs by auto
      have "loop_rel (dense_params [(p, effective_grad opt p g)]) opt o1"
        using step_param_rel[of p opt g grp i j b] Inr ol1 by (simp add: after_loop_def)
      then have "p_grad o1 = p_grad opt" by (simp add: loop_rel_def main_frame_p_grad)
      then have "effective_grad o1 = effective_grad opt" by (rule effective_grad_frame)
      then have "(q, Some (Sparse t)) \<in> set (map (\<lambda>(p, g). (p, effective_grad o1 p g)) (zip ps gs'))"
        using in' by simp
      from Cons.IH[OF this, of "Suc j" b1] show ?thesis using gs Inr ol1 by simp
    qed
  qed
qed

lemma step_groups_sparse:
  "(q, Some (Sparse t)) \<in> set (concat (map (\<lambda>(grp, gs). group_positions opt grp gs) (zip groups gss))) \<Longrightarrow>
     \<exists>e opt'. step_groups i groups gss (opt, b) = Inl (e, opt')"
proof (induction groups arbitrary: gss i opt b)
  case Nil
  then show ?case by simp
next
  case (Cons grp groups)
  show ?case
  proof (cases gss)
    case Nil
    then show ?thesis using Cons.prems by simp
  next
    case gss: (Cons gs gss')
    define gtg where "gtg = (case gs of None \<Rightarrow> replicate (length (params grp)) None | Some l \<Rightarrow> l)"
    have unf: "step_groups i (grp # groups) gss (opt, b) =
                 (case step_params grp i 0 (params grp) gtg (opt, b) of
                    Inl e \<Rightarrow> Inl e
                  | Inr ol1 \<Rightarrow> step_groups (Suc i) groups gss' ol1)"
      unfolding gss gtg_def by (simp add: Let_def)
    show ?thesis
    proof (cases "step_params grp i 0 (params grp) gtg (opt, b)")
      case (Inl e)
      then show ?thesis using unf by (cases e) simp
    next
      case (Inr ol1)
      obtain o1 b1 where ol1: "ol1 = (o1, b1)" by (cases ol1)
      have "(q, Some (Sparse t)) \<notin> set (group_positions opt grp gs)"
      proof
        assume "(q, Some (Sparse t)) \<in> set (group_positions opt grp gs)"
        then have "(q, Some (Sparse t)) \<in> set (map (\<lambda>(p, g). (p, effective_grad opt p g)) (zip (params grp) gtg))"
          by (simp add: group_positions_def gtg_def)
        from step_params_sparse[OF this, of grp i 0 b] Inr show False by auto
      qed
      then have in': "(q, Some (Sparse t)) \<in> set (concat (map (\<lambda>(grp, gs). group_positions opt grp gs) (zip groups gss')))"
        using Cons.prems gss by auto
      have "loop_rel (dense_params (map (\<lambda>(p, g). (p, effective_grad opt p g)) (zip (params grp) gtg))) opt o1"
        using step_params_rel[of opt "params grp" gtg grp i 0 b] Inr ol1 by (simp add: after_loop_def)
      then have pg: "p_grad o1 = p_grad opt" by (simp add: loop_rel_def main_frame_p_grad)
      have "group_positions o1 = group_positions opt"
        by (intro ext) (rule group_positions_frame[OF pg])
      then have "(q, Some (Sparse t)) \<in> set (concat (map (\<lambda>(grp, gs). group_positions o1 grp gs) (zip groups gss')))"
        using in' by simp
      from Cons.IH[OF this, of "Suc i" b1] show ?thesis using unf Inr ol1 by simp
    qed
  qed
qed

section \<open>Facts about the other parts of the step\<close>

lemma rest_frame_refl: "rest_frame opt opt"
  by (simp add: rest_frame_def)

lemma rest_frame_trans: "rest_frame a b \<Longrightarrow> rest_frame b c \<Longrightarrow> rest_frame a c"
  by (simp add: rest_frame_def)

lemma after_simps: "after (Inl (e, opt)) = opt" "after (Inr opt) = opt"
  by (simp_all add: after_def)

lemma alloc_errors_frame: "rest_frame opt (after (alloc_errors is opt))"
proof (induction "is" arbitrary: opt)
  case Nil
  then show ?case by (simp add: after_def rest_frame_refl)
next
  case (Cons i "is")
  show ?case
  proof (cases "nth_opt (corrected_tensor_sizes opt) i")
    case None
    then show ?thesis by (simp add: after_def rest_frame_refl)
  next
    case (Some c)
    show ?thesis
    proof (cases "nth_opt (server_chunk_sizes opt) i")
      case None
      then show ?thesis using Some
        by (simp add: after_def rest_frame_def config_def Let_def)
    next
      case (Some k)
      let ?o = "opt\<lparr>worker_errors := worker_errors opt @ [zeros c],
                     server_errors := server_errors opt @ [zeros k]\<rparr>"
      have "alloc_errors (i # is) opt = alloc_errors is ?o"
        using Some \<open>nth_opt (corrected_tensor_sizes opt) i = Some c\<close> by (simp add: Let_def)
      moreover have "rest_frame opt ?o" by (simp add: rest_frame_def config_def)
      ultimately show ?thesis using Cons.IH[of ?o] rest_frame_trans by simp
    qed
  qed
qed

lemma init_error_buffers_frame: "rest_frame opt (after (init_error_buffers opt))"
  by (simp add: init_error_buffers_def alloc_errors_frame after_simps rest_frame_refl)

lemma init_error_buffers_bootstrap:
  "\<not> initialize opt \<Longrightarrow> init_error_buffers opt = Inr opt"
  by (simp add: init_error_buffers_def)

lemma reduce_flat_frame: "rest_frame opt (after (reduce_flat car is opt))"
proof (induction "is" arbitrary: opt)
  case Nil
  then show ?case by (simp add: after_def rest_frame_refl)
next
  case (Cons i "is")
  have step: "\<exists>o1. rest_frame opt o1 \<and>
           (reduce_flat car (i # is) opt = reduce_flat car is o1 \<or>
            (\<exists>e. reduce_flat car (i # is) opt = Inl (e, o1)))"
  proof (cases "initialize opt")
    case False
    show ?thesis
    proof (cases "nth_opt (corrected_tensor_sizes opt) i")
      case None
      then show ?thesis using False by (intro exI[of _ opt]) (simp add: rest_frame_refl)
    next
      case c: (Some c)
      show ?thesis
      proof (cases "nth_opt (server_chunk_sizes opt) i")
        case None
        then show ?thesis using False c
          by (intro exI[of _ "opt\<lparr>worker_errors := worker_errors opt @ [zeros c]\<rparr>"])
             (simp add: rest_frame_def config_def Let_def)
      next
        case (Some k)
        define opt2 where "opt2 = opt\<lparr>worker_errors := worker_errors opt @ [zeros c],
                                     server_errors := server_errors opt @ [zeros k]\<rparr>"
        obtain b w s where car: "car (exp_avg_flat opt2 ! i) (hd (worker_errors opt2)) (hd (server_errors opt2)) = (b, w, s)"
          by (cases "car (exp_avg_flat opt2 ! i) (hd (worker_errors opt2)) (hd (server_errors opt2))") auto
        let ?o = "opt2\<lparr>exp_avg_flat := (exp_avg_flat opt2)[i := b], worker_errors := [], server_errors := []\<rparr>"
        have "reduce_flat car (i # is) opt = reduce_flat car is ?o"
          using False c Some car unfolding opt2_def by (simp add: Let_def)
        moreover have "rest_frame opt ?o" by (simp add: opt2_def rest_frame_def config_def)
        ultimately show ?thesis by blast
      qed
    qed
  next
    case True
    show ?thesis
    proof (cases "nth_opt (worker_errors opt) i")
      case None
      then show ?thesis using True by (intro exI[of _ opt]) (simp add: rest_frame_refl)
    next
      case we: (Some we)
      show ?thesis
      proof (cases "nth_opt (server_errors opt) i")
        case None
        then show ?thesis using True we by (intro exI[of _ opt]) (simp add: rest_frame_refl)
      next
        case (Some se)
        obtain b w s where car: "car (exp_avg_flat opt ! i) we se = (b, w, s)"
          by (cases "car (exp_avg_flat opt ! i) we se") auto
        let ?o = "opt\<lparr>exp_avg_flat := (exp_avg_flat opt)[i := b],
                      worker_errors := (worker_errors opt)[i := w],
                      server_errors := (server_errors opt)[i := s]\<rparr>"
        have "reduce_flat car (i # is) opt = reduce_flat car is ?o"
          using True we Some car by simp
        moreover have "rest_frame opt ?o" by (simp add: rest_frame_def config_def)
        ultimately show ?thesis by blast
      qed
    qed
  qed
  then obtain o1 where o1: "rest_frame opt o1"
    and alt: "reduce_flat car (i # is) opt = reduce_flat car is o1 \<or>
            (\<exists>e. reduce_flat car (i # is) opt = Inl (e, o1))" by blast
  from alt show ?case
  proof
    assume "reduce_flat car (i # is) opt = reduce_flat car is o1"
    then show ?thesis using Cons.IH[of o1] o1 rest_frame_trans by simp
  next
    assume "\<exists>e. reduce_flat car (i # is) opt = Inl (e, o1)"
    then show ?thesis using o1 by (auto simp: after_def)
  qed
qed

lemma reduce_momentum_frame: "rest_frame opt (after (reduce_momentum car opt))"
  by (simp add: reduce_momentum_def reduce_flat_frame after_simps rest_frame_refl)

lemma bind_simps: "bind (Inl e) f = Inl e" "bind (Inr x) f = f x"
  by (simp_all add: bind_def)

lemma step_grads_error: "grads_group_of opt grads = Inl e \<Longrightarrow> step car opt grads = Inl (e, opt)"
  by (simp add: step_def)

lemma step_unfold:
  "grads_group_of opt grads = Inr grads_group \<Longrightarrow>
   step car opt grads =
     bind (pre_compression (opt\<lparr>lamb_coeffs := []\<rparr>)) (\<lambda>(opt1, exp_avg_last_step).
     bind (step_groups 0 (param_groups opt1) grads_group (opt1, None)) (\<lambda>(opt2, bound).
     bind (init_fused_momentum opt2) (\<lambda>opt3.
     bind (init_error_buffers opt3) (\<lambda>opt4.
     bind (reduce_momentum car opt4) (\<lambda>opt5.
     bind (compression_update exp_avg_last_step opt5) (\<lambda>opt6.
     finish opt6 bound))))))"
  by (simp add: step_def)

lemma pre_compression_warmup:
  "\<not> lamb_freeze_key opt \<Longrightarrow> pre_compression opt = Inr (opt, None)"
  by (simp add: pre_compression_def)

lemma rebind_one_forget: "map_option forget (rebind_one off p n st q) = map_option forget (st q)"
  by (auto simp: rebind_one_def forget_def split: option.splits pentry.splits)

lemma rebind_forget: "map_option forget (rebind off pms st q) = map_option forget (st q)"
proof (induction pms arbitrary: off st)
  case Nil
  then show ?case by simp
next
  case (Cons a pms)
  obtain p m where a: "a = (p, m)" by (cases a)
  show ?case unfolding a by (simp add: Cons.IH rebind_one_forget)
qed

lemma init_fused_id: "exp_avg_flat opt \<noteq> [] \<Longrightarrow> init_fused_momentum opt = Inr opt"
  by (simp add: init_fused_momentum_def)

lemma init_fused_frame:
  "config (after (init_fused_momentum opt)) = config opt
   \<and> p_data (after (init_fused_momentum opt)) = p_data opt
   \<and> lamb_freeze_key (after (init_fused_momentum opt)) = lamb_freeze_key opt
   \<and> initialize (after (init_fused_momentum opt)) = initialize opt
   \<and> lamb_coeffs (after (init_fused_momentum opt)) = lamb_coeffs opt
   \<and> worker_errors (after (init_fused_momentum opt)) = worker_errors opt
   \<and> server_errors (after (init_fused_momentum opt)) = server_errors opt
   \<and> scaling_coeffs (after (init_fused_momentum opt)) = scaling_coeffs opt
   \<and> enable_backward_allreduce (after (init_fused_momentum opt)) = enable_backward_allreduce opt
   \<and> (\<forall>q. map_option forget (state (after (init_fused_momentum opt)) q) = map_option forget (state opt q))"
proof (cases "exp_avg_flat opt = []")
  case False
  then show ?thesis by (simp add: init_fused_id after_simps)
next
  case True
  show ?thesis
  proof (cases "init_fused_momentum opt")
    case (Inl a)
    obtain e o1 where a: "a = (e, o1)" by (cases a)
    have "config o1 = config opt \<and> p_data o1 = p_data opt
          \<and> lamb_freeze_key o1 = lamb_freeze_key opt \<and> initialize o1 = initialize opt
          \<and> lamb_coeffs o1 = lamb_coeffs opt \<and> worker_errors o1 = worker_errors opt
          \<and> server_errors o1 = server_errors opt \<and> scaling_coeffs o1 = scaling_coeffs opt
          \<and> enable_backward_allreduce o1 = enable_backward_allreduce opt
          \<and> state o1 = state opt"
      using Inl a True unfolding init_fused_momentum_def
      by (auto simp: Let_def config_def split: option.splits if_splits)
    then show ?thesis using Inl a by (simp add: after_simps)
  next
    case (Inr opt')
    from init_fused_momentum_Inr[OF True Inr] obtain ms d c k f where
      "opt' = opt\<lparr>dummy_exp_avg := d, corrected_tensor_sizes := c, server_chunk_sizes := k,
                  exp_avg_flat := f, state := rebind 0 (zip (all_params opt) ms) (state opt)\<rparr>"
      by blast
    then show ?thesis using Inr by (simp add: after_simps config_def rebind_forget)
  qed
qed

lemma init_fused_nonempty: "init_fused_momentum opt = Inr opt' \<Longrightarrow> exp_avg_flat opt' \<noteq> []"
proof (cases "exp_avg_flat opt = []")
  case False
  assume "init_fused_momentum opt = Inr opt'"
  then show ?thesis using False by (simp add: init_fused_id)
next
  case True
  assume ok: "init_fused_momentum opt = Inr opt'"
  from init_fused_momentum_Inr[OF True ok] obtain ms d c k f where
      "opt' = opt\<lparr>dummy_exp_avg := d, corrected_tensor_sizes := c, server_chunk_sizes := k,
                  exp_avg_flat := [f], state := rebind 0 (zip (all_params opt) ms) (state opt)\<rparr>"
      by blast
  then show ?thesis by simp
qed

lemma reduce_flat_bootstrap_errors:
  "\<not> initialize opt \<Longrightarrow> reduce_flat car is opt = Inr opt' \<Longrightarrow>
     (is = [] \<and> opt' = opt) \<or> (worker_errors opt' = [] \<and> server_errors opt' = [])"
proof (induction "is" arbitrary: opt)
  case Nil
  then show ?case by simp
next
  case (Cons i "is")
  from Cons.prems obtain c where c: "nth_opt (corrected_tensor_sizes opt) i = Some c"
    by (cases "nth_opt (corrected_tensor_sizes opt) i") auto
  from Cons.prems c obtain k where k: "nth_opt (server_chunk_sizes opt) i = Some k"
    by (cases "nth_opt (server_chunk_sizes opt) i") (auto simp: Let_def)
  define opt2 where "opt2 = opt\<lparr>worker_errors := worker_errors opt @ [zeros c],
                               server_errors := server_errors opt @ [zeros k]\<rparr>"
  obtain b w s where car: "car (exp_avg_flat opt2 ! i) (hd (worker_errors opt2)) (hd (server_errors opt2)) = (b, w, s)"
    by (cases "car (exp_avg_flat opt2 ! i) (hd (worker_errors opt2)) (hd (server_errors opt2))") auto
  let ?o = "opt2\<lparr>exp_avg_flat := (exp_avg_flat opt2)[i := b], worker_errors := [], server_errors := []\<rparr>"
  have u: "reduce_flat car (i # is) opt = reduce_flat car is ?o"
    using Cons.prems(1) c k car unfolding opt2_def by (simp add: Let_def)
  have ni: "\<not> initialize ?o" using Cons.prems(1) by (simp add: opt2_def)
  from Cons.IH[OF ni] u Cons.prems(2)
  have "(is = [] \<and> opt' = ?o) \<or> (worker_errors opt' = [] \<and> server_errors opt' = [])" by simp
  then show ?case by auto
qed

lemma reduce_momentum_bootstrap_errors:
  assumes "\<not> initialize opt" and "reduce_momentum car opt = Inr opt'"
  shows "(worker_errors opt' = worker_errors opt \<and> server_errors opt' = server_errors opt)
         \<or> (1 < world_size opt \<and> worker_errors opt' = [] \<and> server_errors opt' = [])"
proof (cases "lamb_freeze_key opt \<and> world_size opt > 1")
  case False
  then show ?thesis using assms by (auto simp: reduce_momentum_def)
next
  case True
  then have "reduce_flat car [0..<length (exp_avg_flat opt)] opt = Inr opt'"
    using assms by (simp add: reduce_momentum_def)
  from reduce_flat_bootstrap_errors[OF assms(1) this] True show ?thesis by auto
qed

lemma compression_update_skip:
  "\<not> (lamb_freeze_key opt \<and> initialize opt) \<Longrightarrow> compression_update l opt = Inr opt"
  by (auto simp: compression_update_def)

lemma finish_bootstrap:
  "\<not> initialize opt \<Longrightarrow> finish opt b = Inr (opt\<lparr>lamb_freeze_key := False, initialize := True\<rparr>)"
  by (simp add: finish_def)

lemma forget_full: "map_option forget e' = map_option forget e \<Longrightarrow> e = Some (Full s) \<Longrightarrow>
   \<exists>s'. e' = Some (Full s') \<and> step_count s' = step_count s \<and> last_factor s' = last_factor s
       \<and> lamb_coeff_freeze s' = lamb_coeff_freeze s \<and> exp_avg_sq s' = exp_avg_sq s
       \<and> exp_avg_sq_back s' = exp_avg_sq_back s"
  by (cases e'; cases e) (auto simp: forget_def split: pentry.splits, (metis pstate.select_convs pstate.surjective pstate.update_convs)+)

section \<open>The first two steps of the example optimizer\<close>

lemma ex_boot_fields:
  "param_groups ex_boot = [ex_group]" "p_grad ex_boot = (\<lambda>_. Some (Dense [0, 0, 0]))"
  "p_data ex_boot = (\<lambda>_. [0, 0, 0])" "state ex_boot = Map.empty"
  "lamb_freeze_key ex_boot = False" "initialize ex_boot = False" "world_size ex_boot = 1"
  "divider ex_boot = 8" "exp_avg_flat ex_boot = []" "worker_errors ex_boot = []"
  "server_errors ex_boot = []" "scaling_coeffs ex_boot = []" "lamb_coeffs ex_boot = []"
  "dummy_exp_avg ex_boot = Map.empty" "corrected_tensor_sizes ex_boot = []"
  "server_chunk_sizes ex_boot = []"
  by (simp_all add: ex_boot_def ex_fresh_def init_optimizer_def compute_divider_def)

lemma zeros3: "zeros 3 = [0, 0, 0]"
  by (simp add: zeros_def eval_nat_numeral)

lemma zeros5': "replicate 5 (0::real) = [0, 0, 0, 0, 0]"
  by (simp add: eval_nat_numeral)

lemma ex_boot_at_fields:
  "param_groups (ex_boot_at fs) = [ex_group]" "p_grad (ex_boot_at fs) = (\<lambda>_. Some (Dense [0, 0, 0]))"
  "p_data (ex_boot_at fs) = (\<lambda>_. [0, 0, 0])" "state (ex_boot_at fs) = Map.empty"
  "lamb_freeze_key (ex_boot_at fs) = False" "initialize (ex_boot_at fs) = False" "world_size (ex_boot_at fs) = 1"
  "divider (ex_boot_at fs) = 8" "exp_avg_flat (ex_boot_at fs) = []" "worker_errors (ex_boot_at fs) = []"
  "server_errors (ex_boot_at fs) = []" "scaling_coeffs (ex_boot_at fs) = []" "lamb_coeffs (ex_boot_at fs) = []"
  "dummy_exp_avg (ex_boot_at fs) = Map.empty" "corrected_tensor_sizes (ex_boot_at fs) = []"
  "server_chunk_sizes (ex_boot_at fs) = []" "freeze_step (ex_boot_at fs) = fs"
  "enable_backward_allreduce (ex_boot_at fs) = True"
  by (simp_all add: ex_boot_at_def ex_boot_fields) (simp add: ex_boot_def ex_fresh_def init_optimizer_def)

lemma ex_boot_at_loop:
  "step_groups 0 [ex_group] [None] (ex_boot_at fs, None) =
     Inr ((ex_boot_at fs)\<lparr>state := [0 \<mapsto> Full \<lparr>step_count = 1, lamb_coeff_freeze = 0, last_factor = 1,
                                     exp_avg = Own [0, 0, 0], exp_avg_sq = [0, 0, 0],
                                     exp_avg_sq_back = [0, 0, 0]\<rparr>],
                  lamb_freeze_key := True\<rparr>, Some 0)"
  by (simp add: ex_group_def step_param_def effective_grad_def ex_boot_at_fields process_param_def
      fresh_state_def numel_def compress_param_def Let_def zeros_def)

lemma ex_boot_at_fused:
  "init_fused_momentum
     ((ex_boot_at fs)\<lparr>state := [0 \<mapsto> Full \<lparr>step_count = 1, lamb_coeff_freeze = 0, last_factor = 1,
                                     exp_avg = Own [0, 0, 0], exp_avg_sq = [0, 0, 0],
                                     exp_avg_sq_back = [0, 0, 0]\<rparr>],
                  lamb_freeze_key := True\<rparr>) =
   Inr (ex_booted\<lparr>lamb_freeze_key := True, initialize := False, freeze_step := fs\<rparr>)"
  by (simp add: init_fused_momentum_def ex_boot_at_fields all_params_def ex_group_def momentum_def
      deref_def numel_def pad38 zeros_def zeros5' rebind_one_def Let_def ex_booted_def
      numeral_3_eq_3) (simp add: ex_boot_at_def ex_boot_def ex_fresh_def init_optimizer_def)

lemma ex_boot_at_step: "step ex_car (ex_boot_at fs) NoGrads = Inr (ex_booted\<lparr>freeze_step := fs\<rparr>)"
proof -
  let ?b = "ex_booted\<lparr>lamb_freeze_key := True, initialize := False, freeze_step := fs\<rparr>"
  have g: "grads_group_of (ex_boot_at fs) NoGrads = Inr [None]"
    by (simp add: grads_group_of_def ex_boot_at_fields)
  have l: "(ex_boot_at fs)\<lparr>lamb_coeffs := []\<rparr> = ex_boot_at fs"
    by (simp add: ex_boot_at_def ex_boot_def ex_fresh_def init_optimizer_def)
  have p: "pre_compression (ex_boot_at fs) = Inr (ex_boot_at fs, None)"
    by (simp add: pre_compression_warmup ex_boot_at_fields)
  have e: "init_error_buffers ?b = Inr ?b"
    by (simp add: init_error_buffers_bootstrap)
  have r: "reduce_momentum ex_car ?b = Inr ?b"
    by (simp add: reduce_momentum_def ex_booted_def ex_boot_fields)
  have c: "compression_update None ?b = Inr ?b"
    by (simp add: compression_update_skip)
  have f: "finish ?b (Some 0) = Inr (ex_booted\<lparr>freeze_step := fs\<rparr>)"
    by (simp add: finish_bootstrap) (simp add: ex_booted_def ex_boot_def ex_fresh_def init_optimizer_def)
  have m: "step_groups 0 (param_groups (ex_boot_at fs)) [None] (ex_boot_at fs, None) =
     Inr ((ex_boot_at fs)\<lparr>state := [0 \<mapsto> Full \<lparr>step_count = 1, lamb_coeff_freeze = 0, last_factor = 1,
                                     exp_avg = Own [0, 0, 0], exp_avg_sq = [0, 0, 0],
                                     exp_avg_sq_back = [0, 0, 0]\<rparr>],
                  lamb_freeze_key := True\<rparr>, Some 0)"
    using ex_boot_at_loop[of fs] by (simp only: ex_boot_at_fields)
  show ?thesis
    unfolding step_unfold[OF g] l
    by (simp only: bind_simps p m prod.case ex_boot_at_fused e r c f)
qed



lemma ex_booted_fields:
  "param_groups ex_booted = [ex_group]" "p_grad ex_booted = (\<lambda>_. Some (Dense [0, 0, 0]))"
  "p_data ex_booted = (\<lambda>_. [0, 0, 0])"
  "state ex_booted = [0 \<mapsto> Full \<lparr>step_count = 1, lamb_coeff_freeze = 0, last_factor = 1,
                                     exp_avg = View 0 3, exp_avg_sq = [0, 0, 0],
                                     exp_avg_sq_back = [0, 0, 0]\<rparr>]"
  "lamb_freeze_key ex_booted = False" "initialize ex_booted = True" "world_size ex_booted = 1"
  "divider ex_booted = 8" "exp_avg_flat ex_booted = [[0, 0, 0, 0, 0, 0, 0, 0]]" "worker_errors ex_booted = []"
  "server_errors ex_booted = []" "scaling_coeffs ex_booted = []" "lamb_coeffs ex_booted = []"
  "dummy_exp_avg ex_booted = [0 \<mapsto> View 3 5]" "corrected_tensor_sizes ex_booted = [8]"
  "server_chunk_sizes ex_booted = [8]" "freeze_step ex_booted = 2"
  "enable_backward_allreduce ex_booted = True" "coeff_beta ex_booted = 1/2"
  by (simp_all add: ex_booted_def ex_boot_fields) (simp_all add: ex_boot_def ex_fresh_def init_optimizer_def)

lemma zeros8: "zeros 8 = [0, 0, 0, 0, 0, 0, 0, 0]"
  by (simp add: zeros_def eval_nat_numeral)

lemma ex_booted_loop:
  "step_groups 0 [ex_group] [None] (ex_booted, None) =
     Inr (ex_booted\<lparr>state := [0 \<mapsto> Full \<lparr>step_count = 2, lamb_coeff_freeze = 0, last_factor = 1,
                                     exp_avg = View 0 3, exp_avg_sq = [0, 0, 0],
                                     exp_avg_sq_back = [0, 0, 0]\<rparr>],
                    lamb_coeffs := [1]\<rparr>, Some 0)"
  apply (simp add: ex_group_def step_param_def effective_grad_def ex_booted_fields process_param_def
      numel_def warmup_param_def Let_def deref_def write_ref_def write_flat_def norm2_def flat0_def)
  apply (simp add: ex_booted_def ex_boot_def ex_fresh_def init_optimizer_def store_def fun_eq_iff)
  done


lemma ex_booted_step: "step ex_car ex_booted NoGrads = Inr ex_frozen"
proof -
  let ?a = "ex_booted\<lparr>state := [0 \<mapsto> Full \<lparr>step_count = 2, lamb_coeff_freeze = 0, last_factor = 1,
                                     exp_avg = View 0 3, exp_avg_sq = [0, 0, 0],
                                     exp_avg_sq_back = [0, 0, 0]\<rparr>],
                    lamb_coeffs := [1]\<rparr>"
  let ?b = "?a\<lparr>worker_errors := [[0, 0, 0, 0, 0, 0, 0, 0]],
               server_errors := [[0, 0, 0, 0, 0, 0, 0, 0]]\<rparr>"
  have g: "grads_group_of ex_booted NoGrads = Inr [None]"
    by (simp add: grads_group_of_def ex_booted_fields)
  have l: "ex_booted\<lparr>lamb_coeffs := []\<rparr> = ex_booted"
    by (simp add: ex_booted_def ex_boot_def ex_fresh_def init_optimizer_def)
  have p: "pre_compression ex_booted = Inr (ex_booted, None)"
    by (simp add: pre_compression_warmup ex_booted_fields)
  have m: "step_groups 0 (param_groups ex_booted) [None] (ex_booted, None) = Inr (?a, Some 0)"
    using ex_booted_loop by (simp only: ex_booted_fields)
  have u: "init_fused_momentum ?a = Inr ?a"
    by (simp add: init_fused_id ex_booted_fields)
  have e: "init_error_buffers ?a = Inr ?b"
    by (simp add: init_error_buffers_def ex_booted_fields nth_opt_def zeros8)
  have r: "reduce_momentum ex_car ?b = Inr ?b"
    by (simp add: reduce_momentum_def ex_booted_fields)
  have c: "compression_update None ?b = Inr ?b"
    by (simp add: compression_update_skip ex_booted_fields)
  have f: "finish ?b (Some 0) = Inr ex_frozen"
    by (simp add: finish_def ex_booted_fields ex_frozen_def)
  show ?thesis
    unfolding step_unfold[OF g] l
    by (simp only: bind_simps p m prod.case u e r c f)
qed
section \<open>Facts about whole steps\<close>

lemma bootstrap_step_facts:
  assumes ni: "\<not> initialize opt" and nk: "\<not> lamb_freeze_key opt"
  shows "p_data (after (step car opt grads)) = p_data opt
         \<and> (\<forall>opt'. step car opt grads = Inr opt' \<longrightarrow>
               initialize opt' \<and> \<not> lamb_freeze_key opt' \<and> exp_avg_flat opt' \<noteq> []
               \<and> enable_backward_allreduce opt' = enable_backward_allreduce opt
               \<and> ((worker_errors opt' = worker_errors opt \<and> server_errors opt' = server_errors opt)
                   \<or> (1 < world_size opt \<and> worker_errors opt' = [] \<and> server_errors opt' = [])))"
proof (cases "grads_group_of opt grads")
  case (Inl e)
  then show ?thesis by (simp add: step_grads_error after_simps)
next
  case (Inr gg)
  define opt0 where "opt0 = opt\<lparr>lamb_coeffs := []\<rparr>"
  have pre: "pre_compression opt0 = Inr (opt0, None)"
    using nk by (simp add: opt0_def pre_compression_warmup)
  have s1: "step car opt grads =
     bind (step_groups 0 (param_groups opt0) gg (opt0, None)) (\<lambda>(opt2, bound).
     bind (init_fused_momentum opt2) (\<lambda>opt3.
     bind (init_error_buffers opt3) (\<lambda>opt4.
     bind (reduce_momentum car opt4) (\<lambda>opt5.
     bind (compression_update None opt5) (\<lambda>opt6.
     finish opt6 bound)))))"
    using step_unfold[OF Inr, of car] pre unfolding opt0_def by (simp add: bind_simps)
  show ?thesis
  proof (cases "step_groups 0 (param_groups opt0) gg (opt0, None)")
    case (Inl a)
    obtain e o1 where a: "a = (e, o1)" by (cases a)
    have "loop_rel (dense_params (concat (map (\<lambda>(grp, gs). group_positions opt0 grp gs)
             (zip (param_groups opt0) gg)))) opt0 o1"
      using step_groups_rel[of opt0 "param_groups opt0" gg 0 None] Inl a by (simp add: after_loop_simps)
    then have "p_data o1 = p_data opt" using ni by (simp add: loop_rel_def opt0_def)
    then show ?thesis using s1 Inl a by (simp add: bind_simps after_simps)
  next
    case (Inr ol)
    obtain opt2 bnd where ol: "ol = (opt2, bnd)" by (cases ol)
    have rel: "loop_rel (dense_params (concat (map (\<lambda>(grp, gs). group_positions opt0 grp gs)
             (zip (param_groups opt0) gg)))) opt0 opt2"
      using step_groups_rel[of opt0 "param_groups opt0" gg 0 None] Inr ol by (simp add: after_loop_simps)
    then have f2: "p_data opt2 = p_data opt" "\<not> initialize opt2"
      "worker_errors opt2 = worker_errors opt" "server_errors opt2 = server_errors opt"
      "world_size opt2 = world_size opt"
      "enable_backward_allreduce opt2 = enable_backward_allreduce opt"
      using ni by (simp_all add: loop_rel_def main_frame_def buffers_def config_def opt0_def)
    have s2: "step car opt grads =
       bind (init_fused_momentum opt2) (\<lambda>opt3.
       bind (init_error_buffers opt3) (\<lambda>opt4.
       bind (reduce_momentum car opt4) (\<lambda>opt5.
       bind (compression_update None opt5) (\<lambda>opt6.
       finish opt6 bnd))))"
      using s1 Inr ol by (simp add: bind_simps)
    note ff = init_fused_frame[of opt2]
    show ?thesis
    proof (cases "init_fused_momentum opt2")
      case (Inl a)
      obtain e o1 where a: "a = (e, o1)" by (cases a)
      then show ?thesis using s2 Inl ff f2 by (simp add: bind_simps after_simps)
    next
      case (Inr opt3)
      have f3: "p_data opt3 = p_data opt" "\<not> initialize opt3"
        "worker_errors opt3 = worker_errors opt" "server_errors opt3 = server_errors opt"
        "world_size opt3 = world_size opt" "exp_avg_flat opt3 \<noteq> []"
        "enable_backward_allreduce opt3 = enable_backward_allreduce opt"
        using ff Inr f2 init_fused_nonempty[OF Inr] by (simp_all add: after_simps config_def)
      have s3: "step car opt grads =
         bind (reduce_momentum car opt3) (\<lambda>opt5.
         bind (compression_update None opt5) (\<lambda>opt6.
         finish opt6 bnd))"
        using s2 Inr f3 by (simp add: bind_simps init_error_buffers_bootstrap)
      note rf = reduce_momentum_frame[of opt3 car]
      show ?thesis
      proof (cases "reduce_momentum car opt3")
        case (Inl a)
        obtain e o1 where a: "a = (e, o1)" by (cases a)
        then show ?thesis using s3 Inl rf f3 by (simp add: bind_simps after_simps rest_frame_def)
      next
        case (Inr opt5)
        have f5: "p_data opt5 = p_data opt" "\<not> initialize opt5" "exp_avg_flat opt5 \<noteq> []"
          "enable_backward_allreduce opt5 = enable_backward_allreduce opt"
          using rf Inr f3 by (auto simp: after_simps rest_frame_def)
        have e5: "(worker_errors opt5 = worker_errors opt \<and> server_errors opt5 = server_errors opt)
                  \<or> (1 < world_size opt \<and> worker_errors opt5 = [] \<and> server_errors opt5 = [])"
          using reduce_momentum_bootstrap_errors[OF f3(2) Inr] f3 by simp
        have "step car opt grads = Inr (opt5\<lparr>lamb_freeze_key := False, initialize := True\<rparr>)"
          using s3 Inr f5 by (simp add: bind_simps compression_update_skip finish_bootstrap)
        then show ?thesis using f5 e5 by (auto simp: after_simps)
      qed
    qed
  qed
qed

lemma finish_warmup:
  assumes "initialize opt" and "\<not> lamb_freeze_key opt" and "finish opt b = Inr opt'"
  shows "\<exists>p s. b = Some p \<and> state opt p = Some (Full s)
          \<and> opt' = (if freeze_step opt \<le> step_count s
                     then opt\<lparr>lamb_freeze_key := True, enable_backward_allreduce := False\<rparr>
                     else opt)"
  using assms unfolding finish_def
  by (auto split: option.splits pentry.splits if_splits)

lemma warmup_step_end:
  assumes ini: "initialize opt" and nk: "\<not> lamb_freeze_key opt"
    and ok: "step car opt grads = Inr opt'"
  shows "\<exists>p s. p \<in> set (all_params opt) \<and> state opt' p = Some (Full s)
          \<and> lamb_freeze_key opt' = (freeze_step opt \<le> step_count s)
          \<and> enable_backward_allreduce opt'
               = (enable_backward_allreduce opt \<and> \<not> lamb_freeze_key opt')"
proof -
  obtain gg where gg: "grads_group_of opt grads = Inr gg"
    using ok by (cases "grads_group_of opt grads") (auto simp: step_grads_error)
  define opt0 where "opt0 = opt\<lparr>lamb_coeffs := []\<rparr>"
  have pre: "pre_compression opt0 = Inr (opt0, None)"
    using nk by (simp add: opt0_def pre_compression_warmup)
  have s1: "step car opt grads =
     bind (step_groups 0 (param_groups opt0) gg (opt0, None)) (\<lambda>(opt2, bound).
     bind (init_fused_momentum opt2) (\<lambda>opt3.
     bind (init_error_buffers opt3) (\<lambda>opt4.
     bind (reduce_momentum car opt4) (\<lambda>opt5.
     bind (compression_update None opt5) (\<lambda>opt6.
     finish opt6 bound)))))"
    using step_unfold[OF gg, of car] pre unfolding opt0_def by (simp add: bind_simps)
  obtain opt2 bnd where l: "step_groups 0 (param_groups opt0) gg (opt0, None) = Inr (opt2, bnd)"
    using ok s1 by (cases "step_groups 0 (param_groups opt0) gg (opt0, None)") (auto simp: bind_simps)
  have rel: "loop_rel (dense_params (concat (map (\<lambda>(grp, gs). group_positions opt0 grp gs)
             (zip (param_groups opt0) gg)))) opt0 opt2"
    using step_groups_rel[of opt0 "param_groups opt0" gg 0 None] l by (simp add: after_loop_simps)
  then have f2: "initialize opt2" "\<not> lamb_freeze_key opt2"
    "enable_backward_allreduce opt2 = enable_backward_allreduce opt"
    "freeze_step opt2 = freeze_step opt"
    using ini nk by (simp_all add: loop_rel_def main_frame_def buffers_def config_def opt0_def)
  have bd: "bnd = None \<or> (\<exists>p. bnd = Some p \<and> p \<in> set (all_params opt) \<and> is_full (state opt2 p))"
    using step_groups_bound[OF l] by (simp add: all_params_def opt0_def)
  obtain opt3 where fu: "init_fused_momentum opt2 = Inr opt3"
    using ok s1 l by (cases "init_fused_momentum opt2") (auto simp: bind_simps)
  note ff = init_fused_frame[of opt2]
  have f3: "initialize opt3" "\<not> lamb_freeze_key opt3"
    "enable_backward_allreduce opt3 = enable_backward_allreduce opt"
    "freeze_step opt3 = freeze_step opt"
    "\<forall>q. map_option forget (state opt3 q) = map_option forget (state opt2 q)"
    using ff fu f2 by (simp_all add: after_simps config_def)
  obtain opt4 where eb: "init_error_buffers opt3 = Inr opt4"
    using ok s1 l fu by (cases "init_error_buffers opt3") (auto simp: bind_simps)
  have rf: "rest_frame opt3 opt4" using init_error_buffers_frame[of opt3] eb by (simp add: after_simps)
  then have f4: "initialize opt4" "\<not> lamb_freeze_key opt4"
    "enable_backward_allreduce opt4 = enable_backward_allreduce opt"
    "freeze_step opt4 = freeze_step opt" "state opt4 = state opt3"
    using f3 by (simp_all add: rest_frame_def config_def)
  have rm: "reduce_momentum car opt4 = Inr opt4" using f4 by (simp add: reduce_momentum_def)
  have cu: "compression_update None opt4 = Inr opt4" using f4 by (simp add: compression_update_skip)
  have fin: "finish opt4 bnd = Inr opt'"
    using ok s1 l fu eb rm cu by (simp add: bind_simps)
  from finish_warmup[OF f4(1) f4(2) fin] obtain p s where
    b: "bnd = Some p" and st: "state opt4 p = Some (Full s)"
    and o': "opt' = (if freeze_step opt4 \<le> step_count s
                     then opt4\<lparr>lamb_freeze_key := True, enable_backward_allreduce := False\<rparr>
                     else opt4)" by blast
  have pin: "p \<in> set (all_params opt)" using bd b by auto
  have "state opt' p = Some (Full s)" using o' st by simp
  moreover have "lamb_freeze_key opt' = (freeze_step opt \<le> step_count s)"
    using o' f4 by simp
  moreover have "enable_backward_allreduce opt'
               = (enable_backward_allreduce opt \<and> \<not> lamb_freeze_key opt')"
    using o' f4 by simp
  ultimately show ?thesis using pin by blast
qed
section \<open>C6: fusing the momentum and reading it back\<close>



section \<open>C5: the size of the fused buffer\<close>



section \<open>C7: saving and loading a checkpoint\<close>

text \<open>
  Claim C7, as amended. A checkpoint of \<open>saved\<close> is loaded into \<open>live\<close> (distinct
  parameters), and the load returns. When the step count of the first parameter is below
  the freeze step, the optimizer is in the warmup stage, the smoothing fields of every
  parameter are \<open>(0, 1)\<close>, and the engine's all-reduce is enabled again if the compression
  stage had disabled it. When it has reached the freeze step, the error buffers and the
  scaling coefficients are those saved, and the stage flag is what it was in \<open>live\<close>
  before the load: the load itself does not enter the compression stage.
\<close>

theorem load_after_save:
  assumes ok: "load_state_dict live (state_dict saved) = Inr opt'"
    and d: "distinct (all_params live)"
    and q: "first_param (param_groups saved) = Some q" and s: "state saved q = Some (Full s)"
  shows "(step_count s < freeze_step live \<longrightarrow>
            \<not> lamb_freeze_key opt'
            \<and> (\<forall>p \<in> set (all_params live). map_option smoothing (state opt' p) = Some (0, 1))
            \<and> enable_backward_allreduce opt'
                 = (lamb_freeze_key live \<or> enable_backward_allreduce live))
         \<and> (freeze_step live \<le> step_count s \<longrightarrow>
            worker_errors opt' = worker_errors saved \<and> server_errors opt' = server_errors saved
            \<and> scaling_coeffs opt' = scaling_coeffs saved
            \<and> lamb_freeze_key opt' = lamb_freeze_key live)"
proof -
  from ok obtain opt1 where b: "base_load_state_dict live (state_dict saved) = Inr opt1"
    by (cases "base_load_state_dict live (state_dict saved)")
       (auto simp: load_state_dict_def bind_def)
  let ?opt2 = "reset_fused (param_groups live) opt1"
  from load_roundtrip_prelude[OF b d q s] obtain first s1 where
    f: "first_param (param_groups ?opt2) = Some first"
    and st: "state ?opt2 first = Some (Full s1)"
    and sc: "step_count s1 = step_count s"
    and all2: "all_params ?opt2 = all_params live" by blast
  from base_load_Inr[OF b] have "freeze_step opt1 = freeze_step live"
    and "lamb_freeze_key opt1 = lamb_freeze_key live"
    and "enable_backward_allreduce opt1 = enable_backward_allreduce live" by simp_all
  then have cfg: "freeze_step ?opt2 = freeze_step live" "lamb_freeze_key ?opt2 = lamb_freeze_key live"
    "enable_backward_allreduce ?opt2 = enable_backward_allreduce live"
    by (simp_all add: reset_fused_def)
  have r: "load_state_dict live (state_dict saved) =
             (if step_count s \<ge> freeze_step live then load_lamb_states (state_dict saved) ?opt2
              else Inr (reset_lamb_states ?opt2))"
    using b f st sc cfg by (simp add: load_state_dict_def bind_def Let_def)
  show ?thesis
  proof (intro conjI impI)
    assume lt: "step_count s < freeze_step live"
    then have o: "opt' = reset_lamb_states ?opt2" using r ok by simp
    show "\<not> lamb_freeze_key opt'" unfolding o by (simp add: reset_lamb_states_def)
    show "\<forall>p \<in> set (all_params live). map_option smoothing (state opt' p) = Some (0, 1)"
      unfolding o using all2 by (simp add: reset_lamb_states_def reset_smoothing_in)
    show "enable_backward_allreduce opt' = (lamb_freeze_key live \<or> enable_backward_allreduce live)"
      unfolding o using cfg by (simp add: reset_lamb_states_def)
  next
    assume ge: "freeze_step live \<le> step_count s"
    then have "load_lamb_states (state_dict saved) ?opt2 = Inr opt'" using r ok by simp
    from load_lamb_states_Inr[OF this] cfg
    have w: "ck_worker_errors (state_dict saved) = Some (worker_errors opt')"
      and se: "ck_server_errors (state_dict saved) = Some (server_errors opt')"
      and c: "ck_scaling_coeffs (state_dict saved) = Some (scaling_coeffs opt')"
      and k: "lamb_freeze_key opt' = lamb_freeze_key live" by simp_all
    show "worker_errors opt' = worker_errors saved" using w by (simp add: state_dict_def)
    show "server_errors opt' = server_errors saved" using se by (simp add: state_dict_def)
    show "scaling_coeffs opt' = scaling_coeffs saved" using c by (simp add: state_dict_def)
    show "lamb_freeze_key opt' = lamb_freeze_key live" by (rule k)
  qed
qed

text \<open>Both branches, on the example optimizers.\<close>

theorem load_after_save_witness:
  "(\<exists>opt'. load_state_dict ex_fresh (state_dict ex_saved) = Inr opt'
       \<and> worker_errors opt' = [[1, 1, 1]] \<and> scaling_coeffs opt' = [[1]])
   \<and> (\<exists>opt'. load_state_dict ex_saved (state_dict ex_opt) = Inr opt'
       \<and> \<not> lamb_freeze_key opt' \<and> enable_backward_allreduce opt'
       \<and> map_option smoothing (state opt' 0) = Some (0, 1))"
proof -
  have d1: "distinct (all_params ex_fresh)"
    by (simp add: all_params_def ex_fresh_def init_optimizer_def ex_group_def)
  have q1: "first_param (param_groups ex_saved) = Some 0"
    by (simp add: first_param_def ex_saved_def ex_opt_def init_optimizer_def ex_group_def)
  have s1: "state ex_saved 0 = Some (Full (ex_state\<lparr>step_count := 5\<rparr>))"
    by (simp add: ex_saved_def)
  have c1: "freeze_step ex_fresh \<le> step_count (ex_state\<lparr>step_count := 5\<rparr>)"
    by (simp add: ex_fresh_def init_optimizer_def)
  have w1: "worker_errors ex_saved = [[1, 1, 1]]" "scaling_coeffs ex_saved = [[1]]"
    by (simp_all add: ex_saved_def)
  have d2: "distinct (all_params ex_saved)"
    by (simp add: all_params_def ex_saved_def ex_opt_def init_optimizer_def ex_group_def)
  have q2: "first_param (param_groups ex_opt) = Some 0"
    by (simp add: first_param_def ex_opt_def init_optimizer_def ex_group_def)
  have s2: "state ex_opt 0 = Some (Full ex_state)" by (simp add: ex_opt_def)
  have c2: "step_count ex_state < freeze_step ex_saved"
    by (simp add: ex_saved_def ex_opt_def init_optimizer_def ex_state_def)
  have k2: "lamb_freeze_key ex_saved" "0 \<in> set (all_params ex_saved)"
    by (simp_all add: ex_saved_def all_params_def ex_opt_def init_optimizer_def ex_group_def)
  from load_after_save[OF ex_load_fresh d1 q1 s1] c1 w1 ex_load_fresh
  have A: "\<exists>opt'. load_state_dict ex_fresh (state_dict ex_saved) = Inr opt'
       \<and> worker_errors opt' = [[1, 1, 1]] \<and> scaling_coeffs opt' = [[1]]" by simp
  from load_after_save[OF ex_load_warm d2 q2 s2] c2 k2 ex_load_warm
  have B: "\<exists>opt'. load_state_dict ex_saved (state_dict ex_opt) = Inr opt'
       \<and> \<not> lamb_freeze_key opt' \<and> enable_backward_allreduce opt'
       \<and> map_option smoothing (state opt' 0) = Some (0, 1)" by (simp add: smoothing_def)
  from A B show ?thesis by blast
qed

text \<open>
  Claim C7 as stated fails: a freshly constructed optimizer that loads a checkpoint saved
  past the freeze step is still in the warmup stage after the load.
\<close>

theorem load_compression_checkpoint_stays_warmup:
  "freeze_step ex_fresh \<le> step_count (ex_state\<lparr>step_count := 5\<rparr>)
   \<and> state ex_saved 0 = Some (Full (ex_state\<lparr>step_count := 5\<rparr>))
   \<and> lamb_freeze_key ex_saved
   \<and> (\<exists>opt'. load_state_dict ex_fresh (state_dict ex_saved) = Inr opt' \<and> \<not> lamb_freeze_key opt')"
  by (simp add: ex_load_fresh) (simp add: ex_fresh_def ex_saved_def init_optimizer_def)

section \<open>C9: the momentum mask and the checkpoint\<close>

text \<open>
  Claim C9 fails on the code where the live group has no mask and the checkpoint's group
  has one: the base class installs the checkpoint's group, mask included, and lines
  413-414 put back only the masks the live groups had.
\<close>

theorem load_takes_mask_from_checkpoint:
  "exp_avg_mask (param_groups ex_opt ! 0) = None
   \<and> (\<exists>opt'. load_state_dict ex_opt (state_dict ex_masked) = Inr opt'
         \<and> exp_avg_mask (param_groups opt' ! 0) = Some [1, 0, 1])"
  by (simp add: ex_load_masked) (simp add: ex_opt_def init_optimizer_def ex_group_def)

section \<open>C8: the first step\<close>




section \<open>C2: from warmup to compression\<close>

text \<open>
  Claim C2, as amended. Take a call of \<open>step\<close> that starts in the warmup stage and returns.
  If the optimizer was initialised (any step after the first): when every tracked step
  counter has reached \<^verbatim>\<open>freeze_step\<close> the optimizer enters the compression stage and
  \<^verbatim>\<open>enable_backward_allreduce\<close> is set to false; when no tracked counter has reached it the
  optimizer stays in warmup and the flag is as before; and the compression stage is entered
  only if some tracked counter has reached \<^verbatim>\<open>freeze_step\<close>, the flag then being false.
  The first step (not initialised) never enters the compression stage and leaves the flag
  as it was, whatever the counters.
\<close>

theorem warmup_to_compression:
  "(initialize opt \<and> \<not> lamb_freeze_key opt \<and> step car opt grads = Inr opt' \<longrightarrow>
      ((\<forall>p \<in> set (all_params opt). \<forall>s. state opt' p = Some (Full s) \<longrightarrow> freeze_step opt \<le> step_count s)
          \<longrightarrow> lamb_freeze_key opt' \<and> \<not> enable_backward_allreduce opt')
      \<and> ((\<forall>p \<in> set (all_params opt). \<forall>s. state opt' p = Some (Full s) \<longrightarrow> step_count s < freeze_step opt)
          \<longrightarrow> \<not> lamb_freeze_key opt'
              \<and> enable_backward_allreduce opt' = enable_backward_allreduce opt)
      \<and> (lamb_freeze_key opt' \<longrightarrow> \<not> enable_backward_allreduce opt'
            \<and> (\<exists>p \<in> set (all_params opt). \<exists>s. state opt' p = Some (Full s)
                  \<and> freeze_step opt \<le> step_count s)))
   \<and> (\<not> initialize opt \<and> \<not> lamb_freeze_key opt \<and> step car opt grads = Inr opt' \<longrightarrow>
        \<not> lamb_freeze_key opt'
        \<and> enable_backward_allreduce opt' = enable_backward_allreduce opt)"
proof (intro conjI impI)
  assume a: "initialize opt \<and> \<not> lamb_freeze_key opt \<and> step car opt grads = Inr opt'"
  from warmup_step_end[of opt car grads opt'] a obtain p s where
    p: "p \<in> set (all_params opt)" "state opt' p = Some (Full s)"
    and k: "lamb_freeze_key opt' = (freeze_step opt \<le> step_count s)"
    and e: "enable_backward_allreduce opt' = (enable_backward_allreduce opt \<and> \<not> lamb_freeze_key opt')"
    by blast
  {
    assume "\<forall>p \<in> set (all_params opt). \<forall>s. state opt' p = Some (Full s) \<longrightarrow> freeze_step opt \<le> step_count s"
    then have "freeze_step opt \<le> step_count s" using p by blast
    then show "lamb_freeze_key opt'" and "\<not> enable_backward_allreduce opt'" using k e by simp_all
  }
  {
    assume "\<forall>p \<in> set (all_params opt). \<forall>s. state opt' p = Some (Full s) \<longrightarrow> step_count s < freeze_step opt"
    then have "step_count s < freeze_step opt" using p by blast
    then show "\<not> lamb_freeze_key opt'"
      and "enable_backward_allreduce opt' = enable_backward_allreduce opt" using k e by simp_all
  }
  {
    assume "lamb_freeze_key opt'"
    then show "\<not> enable_backward_allreduce opt'"
      and "\<exists>p \<in> set (all_params opt). \<exists>s. state opt' p = Some (Full s) \<and> freeze_step opt \<le> step_count s"
      using k e p by auto
  }
next
  assume a: "\<not> initialize opt \<and> \<not> lamb_freeze_key opt \<and> step car opt grads = Inr opt'"
  then show "\<not> lamb_freeze_key opt'"
    and "enable_backward_allreduce opt' = enable_backward_allreduce opt"
    using bootstrap_step_facts[of opt car grads] by simp_all
qed

text \<open>The second step of the example optimizer, whose \<^verbatim>\<open>freeze_step\<close> is two.\<close>

theorem warmup_to_compression_witness:
  "initialize ex_booted \<and> \<not> lamb_freeze_key ex_booted
   \<and> step ex_car ex_booted NoGrads = Inr ex_frozen
   \<and> all_params ex_booted = [0]
   \<and> (\<exists>s. state ex_frozen 0 = Some (Full s) \<and> freeze_step ex_booted \<le> step_count s)
   \<and> lamb_freeze_key ex_frozen \<and> \<not> enable_backward_allreduce ex_frozen"
proof -
  have a: "initialize ex_booted" "\<not> lamb_freeze_key ex_booted"
    by (simp_all add: ex_booted_fields)
  have p: "all_params ex_booted = [0]"
    by (simp add: all_params_def ex_booted_fields ex_group_def)
  have s: "state ex_frozen 0 = Some (Full \<lparr>step_count = 2, lamb_coeff_freeze = 0, last_factor = 1,
             exp_avg = View 0 3, exp_avg_sq = [0, 0, 0], exp_avg_sq_back = [0, 0, 0]\<rparr>)"
    by (simp add: ex_frozen_def)
  have f: "freeze_step ex_booted = 2" by (simp add: ex_booted_fields)
  from warmup_to_compression[of ex_booted ex_car NoGrads ex_frozen] a ex_booted_step p s f
  have "lamb_freeze_key ex_frozen \<and> \<not> enable_backward_allreduce ex_frozen" by simp
  then show ?thesis using a ex_booted_step p s f by simp
qed

text \<open>
  Claim C2 as stated fails on the first step: with a \<^verbatim>\<open>freeze_step\<close> of one, the
  parameter's step counter has reached \<^verbatim>\<open>freeze_step\<close> at the end of the first step, and
  the optimizer is in the warmup stage with \<^verbatim>\<open>enable_backward_allreduce\<close> still true.
\<close>

theorem first_step_reaches_freeze_step_in_warmup:
  "\<not> lamb_freeze_key (ex_boot_at 1) \<and> enable_backward_allreduce (ex_boot_at 1)
   \<and> (\<exists>opt'. step ex_car (ex_boot_at 1) NoGrads = Inr opt'
          \<and> (\<exists>s. state opt' 0 = Some (Full s) \<and> freeze_step opt' \<le> step_count s)
          \<and> \<not> lamb_freeze_key opt' \<and> enable_backward_allreduce opt')"
  by (simp add: ex_boot_at_step ex_boot_at_fields) (simp add: ex_booted_def ex_boot_fields ex_boot_def ex_fresh_def init_optimizer_def)

end
